theory Spec2Isabelle
  imports Main "HOL-Library.Sublist" "HOL-Library.Multiset"
begin

section \<open>The Hyper-V systems driver of sushy-tools\<close>

text \<open>
  A shallow embedding of \<^verbatim>\<open>sushy_tools/emulator/resources/systems/hypervdriver.py\<close>.
  Every method of \<^verbatim>\<open>HyperVDriver\<close> that the properties below are about is a function
  from the state of the hypervisor host to a result (a raised exception or a returned value)
  and the state afterwards.
\<close>

subsection \<open>Exceptions\<close>

text \<open>
  \<^verbatim>\<open>error.FishyError\<close> is the driver layer's base exception and
  \<^verbatim>\<open>error.NotSupportedError\<close> its subclass. \<open>IndexError\<close>, \<open>ValueError\<close> and
  \<open>StopIteration\<close> are the Python built-ins that list indexing, \<^verbatim>\<open>list.remove\<close> and
  \<^verbatim>\<open>next\<close> raise. \<open>BackendException\<close> is any other exception, raised by the hypervisor
  API, with its \<^verbatim>\<open>str()\<close>.
\<close>

datatype exn =
    FishyError string
  | NotSupportedError
  | IndexError
  | ValueError
  | StopIteration
  | BackendException string

text \<open>\<^verbatim>\<open>isinstance(ex, error.FishyError)\<close>, the test of \<^verbatim>\<open>except error.FishyError\<close>.\<close>

fun isinstance_FishyError :: "exn \<Rightarrow> bool" where
  "isinstance_FishyError (FishyError msg) = True"
| "isinstance_FishyError NotSupportedError = True"
| "isinstance_FishyError IndexError = False"
| "isinstance_FishyError ValueError = False"
| "isinstance_FishyError StopIteration = False"
| "isinstance_FishyError (BackendException msg) = False"

text \<open>\<^verbatim>\<open>str(ex)\<close>, as the \<^verbatim>\<open>%(ex)s\<close> conversion prints it.\<close>

fun str_exn :: "exn \<Rightarrow> string" where
  "str_exn (FishyError msg) = msg"
| "str_exn NotSupportedError = ''Unsupported''"
| "str_exn IndexError = ''list index out of range''"
| "str_exn ValueError = ''list.remove(x): x not in list''"
| "str_exn StopIteration = ''''"
| "str_exn (BackendException msg) = msg"

subsection \<open>The hypervisor API\<close>

text \<open>
  The driver talks to the host through \<^verbatim>\<open>os_win\<close>'s \<^verbatim>\<open>vmutils\<close> and compares against
  \<^verbatim>\<open>os_win.constants\<close>. Neither is part of the repository, so the constants are parameters
  of every function (the record \<open>os_win\<close>) and the host is an explicit in-memory model:
  the virtual machines by name, the WMI boot-source objects by path, an oracle saying which
  API calls fail and with what exception, and the sequence of API calls made so far.
\<close>

type_synonym identity = string
type_synonym path = string

record os_win =
  HYPERV_VM_STATE_ENABLED :: int
  HYPERV_VM_STATE_DISABLED :: int
  HYPERV_VM_STATE_REBOOT :: int
  BOOT_DEVICE_NETWORK :: int
  BOOT_DEVICE_HARDDISK :: int
  BOOT_DEVICE_CDROM :: int
  VM_GEN_1 :: int
  VM_GEN_2 :: int
  DISK_DRIVE_RES_SUB_TYPE :: string
  DVD_DRIVE_RES_SUB_TYPE :: string

text \<open>
  A boot-source setting (\<open>bssd\<close>) carries its \<open>BootSourceType\<close> and the resource settings
  (\<open>rasd\<close>) that \<^verbatim>\<open>bssd.associators(wmi_association_class=_LOGICAL_IDENTITY_CLASS)\<close>
  returns.
\<close>

record rasd =
  ResourceSubType :: string

record bssd =
  BootSourceType :: int
  associators :: "rasd list"

text \<open>
  The virtual-system setting object that \<^verbatim>\<open>_lookup_vm_check\<close> returns: the generation-1
  \<open>BootOrder\<close> is a sequence of device tokens, the generation-2 \<open>BootSourceOrder\<close> a
  sequence of paths of boot-source objects.
\<close>

record vssd =
  ElementName :: identity
  BootOrder :: "int list"
  BootSourceOrder :: "path list"

record vm =
  EnabledState :: int
  generation :: int
  vm_boot_order :: "int list"
  vm_boot_source_order :: "path list"

datatype call =
    Get_vm_state identity
  | Set_vm_state identity int
  | Soft_shutdown_vm identity
  | Get_vm_generation identity
  | Lookup_vm_check identity
  | Get_wmi_obj path
  | Set_boot_order identity "int list"
  | Modify_virtual_system vssd

record host =
  vms :: "identity \<rightharpoonup> vm"
  wmi_objs :: "path \<rightharpoonup> bssd"
  failure :: "call \<Rightarrow> exn option"
  trace :: "call list"

text \<open>An operation either raises or returns, and leaves a host behind.\<close>

type_synonym 'a op = "host \<Rightarrow> (exn + 'a) \<times> host"

definition ret :: "'a \<Rightarrow> 'a op" where
  "ret a h = (Inr a, h)"

definition raise :: "exn \<Rightarrow> 'a op" where
  "raise e h = (Inl e, h)"

definition and_then :: "'a op \<Rightarrow> ('a \<Rightarrow> 'b op) \<Rightarrow> 'b op" where
  "and_then m f h = (case m h of (Inl e, h1) \<Rightarrow> (Inl e, h1) | (Inr a, h1) \<Rightarrow> f a h1)"

text \<open>
  \<^verbatim>\<open>try: body  except Exception as ex: handler(ex)\<close>: the handler runs on the host the
  body left behind.
\<close>

definition try_except :: "'a op \<Rightarrow> (exn \<Rightarrow> 'a op) \<Rightarrow> 'a op" where
  "try_except body handler h =
     (case body h of (Inl e, h1) \<Rightarrow> handler e h1 | (Inr a, h1) \<Rightarrow> (Inr a, h1))"

text \<open>
  Modelled from the spec: the hypervisor management API is an opaque collaborator that
  raises a failure on any transport or API error and returns structured records on success.
  Every call is recorded in the trace; it raises what the failure oracle says, and it
  raises when the virtual machine or object it names does not exist.
\<close>

definition api :: "call \<Rightarrow> (host \<Rightarrow> exn + 'a \<times> host) \<Rightarrow> 'a op" where
  "api c f h =
     (let h1 = h\<lparr>trace := trace h @ [c]\<rparr> in
      case failure h c of
        Some e \<Rightarrow> (Inl e, h1)
      | None \<Rightarrow> (case f h1 of Inl e \<Rightarrow> (Inl e, h1) | Inr (a, h2) \<Rightarrow> (Inr a, h2)))"

definition vm_not_found :: exn where
  "vm_not_found = BackendException ''HyperVVMNotFoundException''"

definition obj_not_found :: exn where
  "obj_not_found = BackendException ''x_wmi''"

definition get_vm_state :: "identity \<Rightarrow> int op" where
  "get_vm_state identity =
     api (Get_vm_state identity) (\<lambda>h.
       case vms h identity of
         None \<Rightarrow> Inl vm_not_found
       | Some m \<Rightarrow> Inr (EnabledState m, h))"

definition set_vm_state :: "os_win \<Rightarrow> identity \<Rightarrow> int \<Rightarrow> unit op" where
  "set_vm_state cs identity req =
     api (Set_vm_state identity req) (\<lambda>h.
       case vms h identity of
         None \<Rightarrow> Inl vm_not_found
       | Some m \<Rightarrow>
           Inr ((), h\<lparr>vms := (vms h)(identity \<mapsto>
             m\<lparr>EnabledState :=
                 (if req = HYPERV_VM_STATE_REBOOT cs then HYPERV_VM_STATE_ENABLED cs
                  else req)\<rparr>)\<rparr>))"

definition soft_shutdown_vm :: "os_win \<Rightarrow> identity \<Rightarrow> unit op" where
  "soft_shutdown_vm cs identity =
     api (Soft_shutdown_vm identity) (\<lambda>h.
       case vms h identity of
         None \<Rightarrow> Inl vm_not_found
       | Some m \<Rightarrow>
           Inr ((), h\<lparr>vms := (vms h)(identity \<mapsto>
             m\<lparr>EnabledState := HYPERV_VM_STATE_DISABLED cs\<rparr>)\<rparr>))"

definition get_vm_generation :: "identity \<Rightarrow> int op" where
  "get_vm_generation identity =
     api (Get_vm_generation identity) (\<lambda>h.
       case vms h identity of
         None \<Rightarrow> Inl vm_not_found
       | Some m \<Rightarrow> Inr (generation m, h))"

definition lookup_vm_check :: "identity \<Rightarrow> vssd op" where
  "lookup_vm_check identity =
     api (Lookup_vm_check identity) (\<lambda>h.
       case vms h identity of
         None \<Rightarrow> Inl vm_not_found
       | Some m \<Rightarrow>
           Inr (\<lparr>ElementName = identity, BootOrder = vm_boot_order m,
                 BootSourceOrder = vm_boot_source_order m\<rparr>, h))"

definition get_wmi_obj :: "path \<Rightarrow> bssd op" where
  "get_wmi_obj p =
     api (Get_wmi_obj p) (\<lambda>h.
       case wmi_objs h p of
         None \<Rightarrow> Inl obj_not_found
       | Some b \<Rightarrow> Inr (b, h))"

definition set_boot_order :: "identity \<Rightarrow> int list \<Rightarrow> unit op" where
  "set_boot_order identity order =
     api (Set_boot_order identity order) (\<lambda>h.
       case vms h identity of
         None \<Rightarrow> Inl vm_not_found
       | Some m \<Rightarrow> Inr ((), h\<lparr>vms := (vms h)(identity \<mapsto> m\<lparr>vm_boot_order := order\<rparr>)\<rparr>))"

definition modify_virtual_system :: "vssd \<Rightarrow> unit op" where
  "modify_virtual_system s =
     api (Modify_virtual_system s) (\<lambda>h.
       case vms h (ElementName s) of
         None \<Rightarrow> Inl vm_not_found
       | Some m \<Rightarrow>
           Inr ((), h\<lparr>vms := (vms h)(ElementName s \<mapsto>
             m\<lparr>vm_boot_order := BootOrder s, vm_boot_source_order := BootSourceOrder s\<rparr>)\<rparr>))"

subsection \<open>The driver\<close>

definition BOOT_SOURCE_TYPE_DRIVE :: int where
  "BOOT_SOURCE_TYPE_DRIVE = 1"

definition BOOT_SOURCE_TYPE_NETWORK :: int where
  "BOOT_SOURCE_TYPE_NETWORK = 2"

text \<open>
  The two dictionaries that \<^verbatim>\<open>initialize\<close> builds, as association lists in insertion
  order: \<^verbatim>\<open>.get\<close> is \<open>map_of\<close>, \<^verbatim>\<open>.items()\<close> is the list.
\<close>

definition VM_STATE_MAP :: "os_win \<Rightarrow> (string \<times> int) list" where
  "VM_STATE_MAP cs =
     [(''On'', HYPERV_VM_STATE_ENABLED cs),
      (''ForceOn'', HYPERV_VM_STATE_ENABLED cs),
      (''ForceOff'', HYPERV_VM_STATE_DISABLED cs),
      (''ForceRestart'', HYPERV_VM_STATE_REBOOT cs)]"

definition BOOT_ORDER_MAP :: "os_win \<Rightarrow> (string \<times> int) list" where
  "BOOT_ORDER_MAP cs =
     [(''Pxe'', BOOT_DEVICE_NETWORK cs),
      (''Hdd'', BOOT_DEVICE_HARDDISK cs),
      (''Cd'', BOOT_DEVICE_CDROM cs)]"

text \<open>\<^verbatim>\<open>get_power_state\<close>: the state is read from the host at every call.\<close>

definition get_power_state :: "os_win \<Rightarrow> identity \<Rightarrow> string option op" where
  "get_power_state cs identity =
     and_then (get_vm_state identity) (\<lambda>state.
       ret (Some (if state = HYPERV_VM_STATE_ENABLED cs then ''On'' else ''Off'')))"

text \<open>
  The message of the \<^verbatim>\<open>FishyError\<close> that \<^verbatim>\<open>set_power_state\<close> raises:
  \<^verbatim>\<open>'Failed to set the power state "%(state)s" for Hyper-V VM "%(vm)s": %(ex)s'\<close>.
\<close>

definition dquote :: string where
  "dquote = [CHR 0x22]"

definition power_state_message :: "string \<Rightarrow> identity \<Rightarrow> exn \<Rightarrow> string" where
  "power_state_message state identity ex =
     ''Failed to set the power state '' @ dquote @ state @ dquote @
     '' for Hyper-V VM '' @ dquote @ identity @ dquote @ '': '' @ str_exn ex"

text \<open>
  \<^verbatim>\<open>set_power_state\<close>. \<^verbatim>\<open>if vm_state:\<close> is Python truthiness: the key is in the
  dictionary and its value is not zero.
\<close>

definition set_power_state :: "os_win \<Rightarrow> identity \<Rightarrow> string \<Rightarrow> unit op" where
  "set_power_state cs identity state =
     try_except
       (case map_of (VM_STATE_MAP cs) state of
          Some vm_state \<Rightarrow>
            if vm_state \<noteq> 0 then set_vm_state cs identity vm_state
            else if state = ''GracefulShutdown'' then soft_shutdown_vm cs identity
            else raise NotSupportedError
        | None \<Rightarrow>
            if state = ''GracefulShutdown'' then soft_shutdown_vm cs identity
            else raise NotSupportedError)
       (\<lambda>ex.
          if isinstance_FishyError ex then raise ex
          else raise (FishyError (power_state_message state identity ex)))"

text \<open>
  \<^verbatim>\<open>_get_boot_device_gen2\<close>. A function that ends without \<^verbatim>\<open>return\<close>, or with a
  bare one, returns \<^verbatim>\<open>None\<close>; \<^verbatim>\<open>associators(...)[0]\<close> raises \<open>IndexError\<close> on an
  empty result.
\<close>

definition get_boot_device_gen2 :: "os_win \<Rightarrow> identity \<Rightarrow> string option op" where
  "get_boot_device_gen2 cs identity =
     and_then (lookup_vm_check identity) (\<lambda>s.
       case BootSourceOrder s of
         [] \<Rightarrow> ret None
       | first # _ \<Rightarrow>
           and_then (get_wmi_obj first) (\<lambda>b.
             if BootSourceType b = BOOT_SOURCE_TYPE_NETWORK then ret (Some ''Pxe'')
             else if BootSourceType b = BOOT_SOURCE_TYPE_DRIVE then
               (case associators b of
                  [] \<Rightarrow> raise IndexError
                | r # _ \<Rightarrow>
                    if ResourceSubType r = DISK_DRIVE_RES_SUB_TYPE cs then ret (Some ''Hdd'')
                    else if ResourceSubType r = DVD_DRIVE_RES_SUB_TYPE cs then ret (Some ''Cd'')
                    else ret None)
             else ret None))"

text \<open>
  \<^verbatim>\<open>next(k for (k, v) in items if v == boot_order[0])\<close>: the generator evaluates
  \<^verbatim>\<open>boot_order[0]\<close> at every item it visits, returns the first key whose value is equal
  to it, and \<^verbatim>\<open>next\<close> raises \<open>StopIteration\<close> when the items are exhausted.
\<close>

fun next_key :: "(string \<times> int) list \<Rightarrow> int list \<Rightarrow> exn + string" where
  "next_key [] boot_order = Inl StopIteration"
| "next_key ((k, v) # items) [] = Inl IndexError"
| "next_key ((k, v) # items) (first # rest) =
     (if v = first then Inr k else next_key items (first # rest))"

definition get_boot_device_gen1 :: "os_win \<Rightarrow> identity \<Rightarrow> string option op" where
  "get_boot_device_gen1 cs identity =
     and_then (lookup_vm_check identity) (\<lambda>s.
       case next_key (BOOT_ORDER_MAP cs) (BootOrder s) of
         Inl e \<Rightarrow> raise e
       | Inr k \<Rightarrow> ret (Some k))"

definition get_boot_device :: "os_win \<Rightarrow> identity \<Rightarrow> string option op" where
  "get_boot_device cs identity =
     and_then (get_vm_generation identity) (\<lambda>g.
       if g = VM_GEN_1 cs then get_boot_device_gen1 cs identity
       else get_boot_device_gen2 cs identity)"

text \<open>
  \<^verbatim>\<open>_set_boot_device_gen1\<close>. The tokens of a boot order are integers, so the
  \<^verbatim>\<open>None\<close> that \<^verbatim>\<open>.get\<close> returns for an unmapped boot source is never in the list
  and \<^verbatim>\<open>boot_order.remove(None)\<close> raises \<open>ValueError\<close>, as
  \<^verbatim>\<open>boot_order.remove(boot_device)\<close> does for a token that is not in the list.
\<close>

definition set_boot_device_gen1 :: "os_win \<Rightarrow> identity \<Rightarrow> string \<Rightarrow> unit op" where
  "set_boot_device_gen1 cs identity boot_source =
     and_then (lookup_vm_check identity) (\<lambda>s.
       case map_of (BOOT_ORDER_MAP cs) boot_source of
         None \<Rightarrow> raise ValueError
       | Some boot_device \<Rightarrow>
           if boot_device \<in> set (BootOrder s) then
             set_boot_order identity (boot_device # remove1 boot_device (BootOrder s))
           else raise ValueError)"

text \<open>
  \<^verbatim>\<open>_set_boot_device_gen2\<close>. \<open>wanted\<close> is the test of the loop body on the object of
  one boot device: whether the device is appended to \<^verbatim>\<open>new_boot_devices\<close>, or the
  \<open>IndexError\<close> of \<^verbatim>\<open>associators(...)[0]\<close>. In Python \<^verbatim>\<open>a and b or c and d\<close> is
  \<^verbatim>\<open>(a and b) or (c and d)\<close>.
\<close>

definition wanted :: "os_win \<Rightarrow> string \<Rightarrow> bssd \<Rightarrow> exn + bool" where
  "wanted cs boot_source b =
     (if boot_source = ''Pxe'' \<and> BootSourceType b = BOOT_SOURCE_TYPE_NETWORK then Inr True
      else
        (case associators b of
           [] \<Rightarrow> Inl IndexError
         | r # _ \<Rightarrow>
             Inr (boot_source = ''Hdd'' \<and> ResourceSubType r = DISK_DRIVE_RES_SUB_TYPE cs
                  \<or> boot_source = ''Cd'' \<and> ResourceSubType r = DVD_DRIVE_RES_SUB_TYPE cs)))"

fun collect :: "os_win \<Rightarrow> string \<Rightarrow> path list \<Rightarrow> path list \<Rightarrow> path list op" where
  "collect cs boot_source [] new_boot_devices h = (Inr new_boot_devices, h)"
| "collect cs boot_source (boot_device # rest) new_boot_devices h =
     (case get_wmi_obj boot_device h of
        (Inl e, h1) \<Rightarrow> (Inl e, h1)
      | (Inr b, h1) \<Rightarrow>
          (case wanted cs boot_source b of
             Inl e \<Rightarrow> (Inl e, h1)
           | Inr True \<Rightarrow> collect cs boot_source rest (new_boot_devices @ [boot_device]) h1
           | Inr False \<Rightarrow> collect cs boot_source rest new_boot_devices h1))"

definition set_boot_device_gen2 :: "os_win \<Rightarrow> identity \<Rightarrow> string \<Rightarrow> unit op" where
  "set_boot_device_gen2 cs identity boot_source =
     and_then (lookup_vm_check identity) (\<lambda>s.
       and_then (collect cs boot_source (BootSourceOrder s) []) (\<lambda>new_boot_devices.
         modify_virtual_system
           (s\<lparr>BootSourceOrder :=
                new_boot_devices @
                filter (\<lambda>d. d \<notin> set new_boot_devices) (BootSourceOrder s)\<rparr>)))"

definition set_boot_device :: "os_win \<Rightarrow> identity \<Rightarrow> string \<Rightarrow> unit op" where
  "set_boot_device cs identity boot_source =
     and_then (get_vm_generation identity) (\<lambda>g.
       if g = VM_GEN_1 cs then set_boot_device_gen1 cs identity boot_source
       else set_boot_device_gen2 cs identity boot_source)"

definition get_boot_mode :: "os_win \<Rightarrow> identity \<Rightarrow> string option op" where
  "get_boot_mode cs identity =
     and_then (get_vm_generation identity) (\<lambda>vm_gen.
       ret (Some (if vm_gen = VM_GEN_2 cs then ''UEFI'' else ''Legacy'')))"

definition set_boot_mode :: "identity \<Rightarrow> string \<Rightarrow> unit op" where
  "set_boot_mode identity boot_mode = ret ()"

subsection \<open>Notions the properties are stated with\<close>

text \<open>A host whose API calls all go through.\<close>

definition reliable :: "host \<Rightarrow> bool" where
  "reliable h = (\<forall>c. failure h c = None)"

text \<open>
  The loop of \<^verbatim>\<open>_set_boot_device_gen2\<close> appends a boot device to
  \<^verbatim>\<open>new_boot_devices\<close> when its object exists and the loop's test \<open>wanted\<close> holds of
  it. This is the test the code makes, not the boot class of the record: for \<open>Hdd\<close> and
  \<open>Cd\<close> it reads the subtype of the first associated resource of every record it does
  not take for \<open>Pxe\<close>, without the test of \<open>BootSourceType\<close> that
  \<^verbatim>\<open>_get_boot_device_gen2\<close> makes. A device resolves when its object exists and the
  test on it does not raise.
\<close>

definition appended :: "os_win \<Rightarrow> string \<Rightarrow> (path \<rightharpoonup> bssd) \<Rightarrow> path \<Rightarrow> bool" where
  "appended cs boot_source objs d =
     (case objs d of None \<Rightarrow> False | Some b \<Rightarrow> wanted cs boot_source b = Inr True)"

definition resolves :: "os_win \<Rightarrow> string \<Rightarrow> (path \<rightharpoonup> bssd) \<Rightarrow> path \<Rightarrow> bool" where
  "resolves cs boot_source objs d =
     (case objs d of
        None \<Rightarrow> False
      | Some b \<Rightarrow> (case wanted cs boot_source b of Inl e \<Rightarrow> False | Inr w \<Rightarrow> True))"

text \<open>
  What the two \<^verbatim>\<open>except\<close> clauses of \<^verbatim>\<open>set_power_state\<close> raise for an exception of
  the \<^verbatim>\<open>try\<close> block: a \<^verbatim>\<open>FishyError\<close> as it is, anything else as a
  \<^verbatim>\<open>FishyError\<close> with the message above.
\<close>

definition reraised :: "string \<Rightarrow> identity \<Rightarrow> exn \<Rightarrow> exn" where
  "reraised state identity ex =
     (if isinstance_FishyError ex then ex
      else FishyError (power_state_message state identity ex))"

text \<open>
  The order that \<^verbatim>\<open>_set_boot_device_gen2\<close> builds from a boot-source order whose
  devices resolve: the devices the loop appends, then the others.
\<close>

definition partitioned :: "os_win \<Rightarrow> string \<Rightarrow> (path \<rightharpoonup> bssd) \<Rightarrow> path list \<Rightarrow> path list" where
  "partitioned cs boot_source objs ds =
     filter (appended cs boot_source objs) ds @
     filter (\<lambda>d. \<not> appended cs boot_source objs d) ds"

text \<open>
  The generation-2 path goes through for a virtual machine when none of its API calls
  fails and every boot device resolves: the lookup of the settings, one
  \<^verbatim>\<open>_get_wmi_obj\<close> for each device, and the \<^verbatim>\<open>_modify_virtual_system\<close> of the
  reordered settings.
\<close>

definition device_ok :: "os_win \<Rightarrow> string \<Rightarrow> host \<Rightarrow> path \<Rightarrow> bool" where
  "device_ok cs boot_source h d =
     (failure h (Get_wmi_obj d) = None \<and> resolves cs boot_source (wmi_objs h) d)"

definition goes_through :: "os_win \<Rightarrow> identity \<Rightarrow> string \<Rightarrow> host \<Rightarrow> vm \<Rightarrow> bool" where
  "goes_through cs identity boot_source h m =
     (failure h (Get_vm_generation identity) = None \<and>
      failure h (Lookup_vm_check identity) = None \<and>
      list_all (device_ok cs boot_source h) (vm_boot_source_order m) \<and>
      failure h (Modify_virtual_system
        \<lparr>ElementName = identity, BootOrder = vm_boot_order m,
         BootSourceOrder =
           partitioned cs boot_source (wmi_objs h) (vm_boot_source_order m)\<rparr>) = None)"

text \<open>
  The boot class of a generation-1 token: the key that \<^verbatim>\<open>_get_boot_device_gen1\<close> finds
  for a boot order that starts with the token, if it finds one.
\<close>

definition classOf :: "os_win \<Rightarrow> int \<Rightarrow> string option" where
  "classOf cs t = (case next_key (BOOT_ORDER_MAP cs) [t] of Inl e \<Rightarrow> None | Inr k \<Rightarrow> Some k)"

subsection \<open>Sample hosts\<close>

text \<open>
  Constants with the codes of Hyper-V's WMI interface (state 2 is enabled, 3 disabled,
  11 reset; boot devices 0 floppy, 1 optical, 2 hard disk, 3 network), and hosts with one
  virtual machine each.
\<close>

definition sample_constants :: os_win where
  "sample_constants =
     \<lparr>HYPERV_VM_STATE_ENABLED = 2, HYPERV_VM_STATE_DISABLED = 3, HYPERV_VM_STATE_REBOOT = 11,
      BOOT_DEVICE_NETWORK = 3, BOOT_DEVICE_HARDDISK = 2, BOOT_DEVICE_CDROM = 1,
      VM_GEN_1 = 1, VM_GEN_2 = 2,
      DISK_DRIVE_RES_SUB_TYPE = ''Microsoft:Hyper-V:Synthetic Disk Drive'',
      DVD_DRIVE_RES_SUB_TYPE = ''Microsoft:Hyper-V:Synthetic DVD Drive''\<rparr>"

definition sample_objs :: "path \<rightharpoonup> bssd" where
  "sample_objs =
     [''net0'' \<mapsto> \<lparr>BootSourceType = 2,
         associators = [\<lparr>ResourceSubType = ''Microsoft:Hyper-V:Synthetic Ethernet Port''\<rparr>]\<rparr>,
      ''disk0'' \<mapsto> \<lparr>BootSourceType = 1,
         associators = [\<lparr>ResourceSubType = ''Microsoft:Hyper-V:Synthetic Disk Drive''\<rparr>]\<rparr>,
      ''dvd0'' \<mapsto> \<lparr>BootSourceType = 1,
         associators = [\<lparr>ResourceSubType = ''Microsoft:Hyper-V:Synthetic DVD Drive''\<rparr>]\<rparr>]"

definition gen2_vm :: "path list \<Rightarrow> vm" where
  "gen2_vm order =
     \<lparr>EnabledState = 2, generation = 2, vm_boot_order = [], vm_boot_source_order = order\<rparr>"

definition gen1_vm :: "int \<Rightarrow> int list \<Rightarrow> vm" where
  "gen1_vm st order =
     \<lparr>EnabledState = st, generation = 1, vm_boot_order = order, vm_boot_source_order = []\<rparr>"

definition host_of :: "identity \<Rightarrow> vm \<Rightarrow> host" where
  "host_of identity m =
     \<lparr>vms = [identity \<mapsto> m], wmi_objs = sample_objs, failure = (\<lambda>c. None), trace = []\<rparr>"

text \<open>
  Two further boot-source objects: a file-typed boot entry (\<open>BootSourceType\<close> 3), which
  has no associated resource setting, and a network-typed record whose associated resource
  has the subtype of a disk drive. \<open>odd_host\<close> is a reliable host whose generation-2
  virtual machine has the given boot-source order over these objects and the sample ones.
\<close>

definition odd_objs :: "path \<rightharpoonup> bssd" where
  "odd_objs =
     sample_objs
       (''file0'' \<mapsto> \<lparr>BootSourceType = 3, associators = []\<rparr>,
        ''netdisk'' \<mapsto> \<lparr>BootSourceType = 2,
           associators = [\<lparr>ResourceSubType = ''Microsoft:Hyper-V:Synthetic Disk Drive''\<rparr>]\<rparr>)"

definition odd_host :: "path list \<Rightarrow> host" where
  "odd_host order = (host_of ''vm2'' (gen2_vm order))\<lparr>wmi_objs := odd_objs\<rparr>"

text \<open>A host on which every API call raises the given exception.\<close>

definition failing_host :: "exn \<Rightarrow> host" where
  "failing_host e = (host_of ''vm1'' (gen1_vm 3 [1, 2, 3, 0]))\<lparr>failure := (\<lambda>c. Some e)\<rparr>"

section \<open>Properties\<close>

subsection \<open>The API calls on a reliable host\<close>

lemma reliable_trace [simp]: "reliable (h\<lparr>trace := t\<rparr>) = reliable h"
  by (simp add: reliable_def)

lemma reliable_vms [simp]: "reliable (h\<lparr>vms := v\<rparr>) = reliable h"
  by (simp add: reliable_def)

lemma reliable_host_of [simp]: "reliable (host_of identity m)"
  by (simp add: reliable_def host_of_def)

lemma get_vm_state_ok:
  "reliable h \<Longrightarrow> vms h i = Some m \<Longrightarrow>
   get_vm_state i h = (Inr (EnabledState m), h\<lparr>trace := trace h @ [Get_vm_state i]\<rparr>)"
  by (simp add: get_vm_state_def api_def reliable_def)

lemma get_vm_generation_ok:
  "reliable h \<Longrightarrow> vms h i = Some m \<Longrightarrow>
   get_vm_generation i h = (Inr (generation m), h\<lparr>trace := trace h @ [Get_vm_generation i]\<rparr>)"
  by (simp add: get_vm_generation_def api_def reliable_def)

lemma lookup_vm_check_ok:
  "reliable h \<Longrightarrow> vms h i = Some m \<Longrightarrow>
   lookup_vm_check i h =
     (Inr \<lparr>ElementName = i, BootOrder = vm_boot_order m, BootSourceOrder = vm_boot_source_order m\<rparr>,
      h\<lparr>trace := trace h @ [Lookup_vm_check i]\<rparr>)"
  by (simp add: lookup_vm_check_def api_def reliable_def)

lemma get_wmi_obj_ok:
  "reliable h \<Longrightarrow> wmi_objs h p = Some b \<Longrightarrow>
   get_wmi_obj p h = (Inr b, h\<lparr>trace := trace h @ [Get_wmi_obj p]\<rparr>)"
  by (simp add: get_wmi_obj_def api_def reliable_def)

lemma modify_virtual_system_ok:
  "reliable h \<Longrightarrow> vms h (ElementName s) = Some m \<Longrightarrow>
   modify_virtual_system s h =
     (Inr (),
      h\<lparr>trace := trace h @ [Modify_virtual_system s],
        vms := (vms h)(ElementName s \<mapsto>
          m\<lparr>vm_boot_order := BootOrder s, vm_boot_source_order := BootSourceOrder s\<rparr>)\<rparr>)"
  by (simp add: modify_virtual_system_def api_def reliable_def)

lemma set_boot_order_ok:
  "reliable h \<Longrightarrow> vms h i = Some m \<Longrightarrow>
   set_boot_order i order h =
     (Inr (),
      h\<lparr>trace := trace h @ [Set_boot_order i order],
        vms := (vms h)(i \<mapsto> m\<lparr>vm_boot_order := order\<rparr>)\<rparr>)"
  by (simp add: set_boot_order_def api_def reliable_def)

subsection \<open>The generation-2 reordering\<close>

text \<open>
  On a reliable host whose devices resolve, the loop of \<^verbatim>\<open>_set_boot_device_gen2\<close>
  returns the devices that pass its test, in their order, after one \<^verbatim>\<open>_get_wmi_obj\<close>
  call for each device.
\<close>

lemma collect_ok:
  "reliable h \<Longrightarrow> list_all (resolves cs src (wmi_objs h)) ds \<Longrightarrow>
   collect cs src ds new h =
     (Inr (new @ filter (appended cs src (wmi_objs h)) ds),
      h\<lparr>trace := trace h @ map Get_wmi_obj ds\<rparr>)"
proof (induction ds arbitrary: new h)
  case Nil
  then show ?case by simp
next
  case (Cons d ds)
  from Cons.prems obtain b w where b: "wmi_objs h d = Some b" and w: "wanted cs src b = Inr w"
    by (auto simp: resolves_def split: option.splits sum.splits)
  let ?h1 = "h\<lparr>trace := trace h @ [Get_wmi_obj d]\<rparr>"
  have g: "get_wmi_obj d h = (Inr b, ?h1)"
    using Cons.prems(1) b by (rule get_wmi_obj_ok)
  have r1: "reliable ?h1" using Cons.prems(1) by simp
  have l1: "list_all (resolves cs src (wmi_objs ?h1)) ds" using Cons.prems(2) by simp
  have sel: "appended cs src (wmi_objs h) d = w"
    using b w by (simp add: appended_def)
  show ?case
  proof (cases w)
    case True
    then show ?thesis
      using g w sel Cons.IH [OF r1 l1, of "new @ [d]"] by simp
  next
    case False
    then show ?thesis
      using g w sel Cons.IH [OF r1 l1, of new] by simp
  qed
qed

text \<open>
  \<^verbatim>\<open>[d for d in old_boot_devices if d not in new_boot_devices]\<close> is a membership test
  on the devices collected so far; on the devices of the same list that pass a test it is the
  negation of the selection.
\<close>

lemma filter_not_in_filter:
  "filter (\<lambda>d. d \<notin> set (filter P xs)) xs = filter (\<lambda>d. \<not> P d) xs"
  by (rule filter_cong) auto

lemma set_boot_device_gen2_ok:
  assumes "reliable h" and "vms h i = Some m"
    and "list_all (resolves cs src (wmi_objs h)) (vm_boot_source_order m)"
  shows "set_boot_device_gen2 cs i src h =
     (Inr (),
      h\<lparr>trace := trace h @ [Lookup_vm_check i] @ map Get_wmi_obj (vm_boot_source_order m) @
           [Modify_virtual_system
              \<lparr>ElementName = i, BootOrder = vm_boot_order m,
               BootSourceOrder = partitioned cs src (wmi_objs h) (vm_boot_source_order m)\<rparr>],
        vms := (vms h)(i \<mapsto>
          m\<lparr>vm_boot_source_order := partitioned cs src (wmi_objs h) (vm_boot_source_order m)\<rparr>)\<rparr>)"
proof -
  let ?h1 = "h\<lparr>trace := trace h @ [Lookup_vm_check i]\<rparr>"
  let ?old = "vm_boot_source_order m"
  let ?h2 = "?h1\<lparr>trace := trace ?h1 @ map Get_wmi_obj ?old\<rparr>"
  let ?s = "\<lparr>ElementName = i, BootOrder = vm_boot_order m, BootSourceOrder = ?old\<rparr>"
  have l: "lookup_vm_check i h = (Inr ?s, ?h1)"
    using assms(1,2) by (rule lookup_vm_check_ok)
  have c: "collect cs src ?old [] ?h1 = (Inr ([] @ filter (appended cs src (wmi_objs ?h1)) ?old), ?h2)"
    using assms(1,3) by (intro collect_ok) simp_all
  let ?s' = "?s\<lparr>BootSourceOrder := partitioned cs src (wmi_objs h) ?old\<rparr>"
  have m: "modify_virtual_system ?s' ?h2 =
     (Inr (), ?h2\<lparr>trace := trace ?h2 @ [Modify_virtual_system ?s'],
        vms := (vms ?h2)(ElementName ?s' \<mapsto>
          m\<lparr>vm_boot_order := BootOrder ?s', vm_boot_source_order := BootSourceOrder ?s'\<rparr>)\<rparr>)"
    using assms(1,2) by (intro modify_virtual_system_ok) simp_all
  have eq: "filter (appended cs src (wmi_objs h)) ?old @
      filter (\<lambda>d. d \<notin> set (filter (appended cs src (wmi_objs h)) ?old)) ?old =
      partitioned cs src (wmi_objs h) ?old"
    by (simp only: partitioned_def filter_not_in_filter)
  show ?thesis
    using l c m
    by (simp add: set_boot_device_gen2_def and_then_def eq del: set_filter)
qed

lemma set_boot_device_gen2_dispatch:
  assumes "reliable h" and "vms h i = Some m" and "generation m \<noteq> VM_GEN_1 cs"
  shows "set_boot_device cs i src h =
     set_boot_device_gen2 cs i src (h\<lparr>trace := trace h @ [Get_vm_generation i]\<rparr>)"
  using assms get_vm_generation_ok [OF assms(1,2)]
  by (simp add: set_boot_device_def and_then_def)

lemma mset_partitioned: "mset (partitioned cs src objs ds) = mset ds"
  by (simp add: partitioned_def)

lemma set_partitioned: "set (partitioned cs src objs ds) = set ds"
  by (auto simp: partitioned_def)

lemma partitioned_head:
  assumes "d \<in> set ds" and "appended cs src objs d"
  shows "partitioned cs src objs ds \<noteq> [] \<and> appended cs src objs (partitioned cs src objs ds ! 0)"
proof -
  let ?f = "filter (appended cs src objs) ds"
  have ne: "?f \<noteq> []" using assms by (auto simp: filter_empty_conv)
  then have "hd ?f \<in> set ?f" by (rule hd_in_set)
  then have "appended cs src objs (hd ?f)" by simp
  moreover have "partitioned cs src objs ds ! 0 = hd ?f"
    using ne by (simp add: partitioned_def nth_append hd_conv_nth)
  ultimately show ?thesis using ne by (simp add: partitioned_def)
qed

lemma partitioned_idem:
  "partitioned cs src objs (partitioned cs src objs ds) = partitioned cs src objs ds"
  by (simp add: partitioned_def)

text \<open>
  What the code does where it goes through: on a reliable host, for a virtual machine that
  is not of generation 1 and whose boot devices all resolve, \<^verbatim>\<open>set_boot_device\<close>
  persists the devices that pass the loop's test in their original relative order, then all
  the others in their original relative order. The multiset of devices is unchanged and no
  boot-source object is created or destroyed.
\<close>

lemma set_boot_device_gen2_reorders:
  assumes "reliable h" and "vms h identity = Some m" and "generation m \<noteq> VM_GEN_1 cs"
    and "list_all (resolves cs C (wmi_objs h)) (vm_boot_source_order m)"
  shows "\<exists>h' m'. set_boot_device cs identity C h = (Inr (), h') \<and>
      vms h' identity = Some m' \<and> wmi_objs h' = wmi_objs h \<and>
      vm_boot_source_order m' =
        filter (appended cs C (wmi_objs h)) (vm_boot_source_order m) @
        filter (\<lambda>d. \<not> appended cs C (wmi_objs h) d) (vm_boot_source_order m) \<and>
      mset (vm_boot_source_order m') = mset (vm_boot_source_order m) \<and>
      ((\<exists>d \<in> set (vm_boot_source_order m). appended cs C (wmi_objs h) d) \<longrightarrow>
         vm_boot_source_order m' \<noteq> [] \<and>
         appended cs C (wmi_objs h) (vm_boot_source_order m' ! 0))"
proof -
  let ?h0 = "h\<lparr>trace := trace h @ [Get_vm_generation identity]\<rparr>"
  let ?new = "partitioned cs C (wmi_objs h) (vm_boot_source_order m)"
  have d: "set_boot_device cs identity C h = set_boot_device_gen2 cs identity C ?h0"
    using assms(1-3) by (rule set_boot_device_gen2_dispatch)
  have "reliable ?h0" "vms ?h0 identity = Some m"
    "list_all (resolves cs C (wmi_objs ?h0)) (vm_boot_source_order m)"
    using assms by simp_all
  note r = set_boot_device_gen2_ok [OF this]
  have hd: "(\<exists>d \<in> set (vm_boot_source_order m). appended cs C (wmi_objs h) d) \<longrightarrow>
      ?new \<noteq> [] \<and> appended cs C (wmi_objs h) (?new ! 0)"
    using partitioned_head by blast
  show ?thesis
    unfolding d r using hd mset_partitioned [of cs C "wmi_objs h" "vm_boot_source_order m"]
    by (simp add: partitioned_def)
qed

text \<open>On a reliable host the second application succeeds as the first did.\<close>

lemma set_boot_device_gen2_twice:
  assumes "reliable h" and "vms h identity = Some m" and "generation m \<noteq> VM_GEN_1 cs"
    and "list_all (resolves cs C (wmi_objs h)) (vm_boot_source_order m)"
  shows "\<exists>h1 h2. set_boot_device cs identity C h = (Inr (), h1) \<and>
      set_boot_device cs identity C h1 = (Inr (), h2) \<and>
      vms h2 = vms h1 \<and>
      map_option vm_boot_source_order (vms h2 identity) =
        map_option vm_boot_source_order (vms h1 identity)"
proof -
  let ?h0 = "h\<lparr>trace := trace h @ [Get_vm_generation identity]\<rparr>"
  let ?old = "vm_boot_source_order m"
  let ?new = "partitioned cs C (wmi_objs h) ?old"
  let ?m1 = "m\<lparr>vm_boot_source_order := ?new\<rparr>"
  have d: "set_boot_device cs identity C h = set_boot_device_gen2 cs identity C ?h0"
    using assms(1-3) by (rule set_boot_device_gen2_dispatch)
  have "reliable ?h0" "vms ?h0 identity = Some m"
    "list_all (resolves cs C (wmi_objs ?h0)) ?old"
    using assms by simp_all
  note r = set_boot_device_gen2_ok [OF this]
  obtain h1 where h1: "set_boot_device cs identity C h = (Inr (), h1)"
    and v1: "vms h1 = (vms h)(identity \<mapsto> ?m1)" and w1: "wmi_objs h1 = wmi_objs h"
    and r1: "reliable h1"
    unfolding d r using assms(1) by simp
  have m1: "vms h1 identity = Some ?m1" using v1 by simp
  have g1: "generation ?m1 \<noteq> VM_GEN_1 cs" using assms(3) by simp
  let ?h10 = "h1\<lparr>trace := trace h1 @ [Get_vm_generation identity]\<rparr>"
  have d1: "set_boot_device cs identity C h1 = set_boot_device_gen2 cs identity C ?h10"
    using r1 m1 g1 by (rule set_boot_device_gen2_dispatch)
  have l1: "list_all (resolves cs C (wmi_objs h)) ?new"
    using assms(4) by (simp add: list_all_iff set_partitioned)
  have "reliable ?h10" "vms ?h10 identity = Some ?m1"
    "list_all (resolves cs C (wmi_objs ?h10)) (vm_boot_source_order ?m1)"
    using r1 m1 l1 w1 by simp_all
  note r2 = set_boot_device_gen2_ok [OF this]
  obtain h2 where h2: "set_boot_device cs identity C h1 = (Inr (), h2)"
    and v2: "vms h2 = vms h1"
    unfolding d1 r2 using v1 w1 by (simp add: partitioned_idem)
  show ?thesis using h1 h2 v2 by simp
qed

subsection \<open>The sample hosts\<close>

lemma sample_resolves:
  "list_all (resolves sample_constants src sample_objs) [''net0'', ''disk0'', ''dvd0'']"
  by (simp add: resolves_def wanted_def sample_objs_def)

lemma sample_gen2_vm:
  "vms (host_of ''vm2'' (gen2_vm ds)) ''vm2'' = Some (gen2_vm ds)"
  "wmi_objs (host_of ''vm2'' (gen2_vm ds)) = sample_objs"
  "generation (gen2_vm ds) \<noteq> VM_GEN_1 sample_constants"
  "vm_boot_source_order (gen2_vm ds) = ds"
  by (simp_all add: host_of_def gen2_vm_def sample_constants_def)

lemma sample_appended_Hdd:
  "filter (appended sample_constants ''Hdd'' sample_objs) [''net0'', ''disk0'', ''dvd0''] = [''disk0'']"
  "filter (\<lambda>d. \<not> appended sample_constants ''Hdd'' sample_objs d) [''net0'', ''disk0'', ''dvd0'']
     = [''net0'', ''dvd0'']"
  by (simp_all add: appended_def wanted_def sample_objs_def sample_constants_def)

text \<open>
  The example of the specification: the order \<open>[net0, disk0, dvd0]\<close> with the boot
  source \<open>Hdd\<close> becomes \<open>[disk0, net0, dvd0]\<close>.
\<close>

lemma set_boot_device_gen2_reorders_sample:
  "reliable (host_of ''vm2'' (gen2_vm [''net0'', ''disk0'', ''dvd0''])) \<and>
   list_all (resolves sample_constants ''Hdd'' sample_objs) [''net0'', ''disk0'', ''dvd0''] \<and>
   (\<exists>h' m'. set_boot_device sample_constants ''vm2'' ''Hdd''
        (host_of ''vm2'' (gen2_vm [''net0'', ''disk0'', ''dvd0''])) = (Inr (), h') \<and>
      vms h' ''vm2'' = Some m' \<and>
      vm_boot_source_order m' = [''disk0'', ''net0'', ''dvd0''])"
proof -
  let ?ds = "[''net0'', ''disk0'', ''dvd0'']"
  let ?h = "host_of ''vm2'' (gen2_vm ?ds)"
  have r: "reliable ?h" by simp
  have l: "list_all (resolves sample_constants ''Hdd'' (wmi_objs ?h)) (vm_boot_source_order (gen2_vm ?ds))"
    by (simp only: sample_gen2_vm sample_resolves)
  from set_boot_device_gen2_reorders [OF r sample_gen2_vm(1) sample_gen2_vm(3) l]
  obtain h' m' where a: "set_boot_device sample_constants ''vm2'' ''Hdd'' ?h = (Inr (), h')"
    and b: "vms h' ''vm2'' = Some m'"
    and c: "vm_boot_source_order m' =
        filter (appended sample_constants ''Hdd'' (wmi_objs ?h)) (vm_boot_source_order (gen2_vm ?ds)) @
        filter (\<lambda>d. \<not> appended sample_constants ''Hdd'' (wmi_objs ?h) d) (vm_boot_source_order (gen2_vm ?ds))"
    by blast
  have "vm_boot_source_order m' = [''disk0'', ''net0'', ''dvd0'']"
    unfolding c sample_gen2_vm sample_appended_Hdd by simp
  with a b r sample_resolves show ?thesis by blast
qed

subsection \<open>The generation-1 boot order\<close>

lemma classOf_map_of: "classOf cs t = Some c \<Longrightarrow> map_of (BOOT_ORDER_MAP cs) c = Some t"
  by (auto simp: classOf_def BOOT_ORDER_MAP_def split: if_splits)

lemma classOf_next_key:
  "classOf cs t = Some c \<Longrightarrow> next_key (BOOT_ORDER_MAP cs) (t # rest) = Inr c"
  by (simp add: classOf_def BOOT_ORDER_MAP_def split: if_splits)

lemma set_boot_device_gen1_dispatch:
  assumes "reliable h" and "vms h i = Some m" and "generation m = VM_GEN_1 cs"
  shows "set_boot_device cs i src h =
     set_boot_device_gen1 cs i src (h\<lparr>trace := trace h @ [Get_vm_generation i]\<rparr>)"
  using assms(3) get_vm_generation_ok [OF assms(1,2)]
  by (simp add: set_boot_device_def and_then_def)

lemma get_boot_device_gen1_dispatch:
  assumes "reliable h" and "vms h i = Some m" and "generation m = VM_GEN_1 cs"
  shows "get_boot_device cs i h =
     get_boot_device_gen1 cs i (h\<lparr>trace := trace h @ [Get_vm_generation i]\<rparr>)"
  using assms(3) get_vm_generation_ok [OF assms(1,2)]
  by (simp add: get_boot_device_def and_then_def)

lemma get_boot_device_gen2_dispatch:
  assumes "reliable h" and "vms h i = Some m" and "generation m \<noteq> VM_GEN_1 cs"
  shows "get_boot_device cs i h =
     get_boot_device_gen2 cs i (h\<lparr>trace := trace h @ [Get_vm_generation i]\<rparr>)"
  using assms(3) get_vm_generation_ok [OF assms(1,2)]
  by (simp add: get_boot_device_def and_then_def)

lemma get_boot_device_gen1_ok:
  assumes "reliable h" and "vms h i = Some m"
  shows "fst (get_boot_device_gen1 cs i h) =
     (case next_key (BOOT_ORDER_MAP cs) (vm_boot_order m) of
        Inl e \<Rightarrow> Inl e | Inr k \<Rightarrow> Inr (Some k))"
  using lookup_vm_check_ok [OF assms]
  by (simp add: get_boot_device_gen1_def and_then_def raise_def ret_def split: sum.splits)

lemma set_boot_device_gen1_ok:
  assumes "reliable h" and "vms h i = Some m" and "map_of (BOOT_ORDER_MAP cs) src = Some t"
    and "t \<in> set (vm_boot_order m)"
  shows "set_boot_device_gen1 cs i src h =
     (Inr (),
      h\<lparr>trace := trace h @ [Lookup_vm_check i,
            Set_boot_order i (t # remove1 t (vm_boot_order m))],
        vms := (vms h)(i \<mapsto> m\<lparr>vm_boot_order := t # remove1 t (vm_boot_order m)\<rparr>)\<rparr>)"
proof -
  let ?h1 = "h\<lparr>trace := trace h @ [Lookup_vm_check i]\<rparr>"
  have "reliable ?h1" "vms ?h1 i = Some m" using assms by simp_all
  note s = set_boot_order_ok [OF this]
  show ?thesis
    using lookup_vm_check_ok [OF assms(1,2)] assms(3,4) s
    by (simp add: set_boot_device_gen1_def and_then_def)
qed

lemma remove1_distinct_filter:
  assumes "distinct xs"
  shows "remove1 t xs = filter (\<lambda>x. x \<noteq> t) xs"
proof -
  from assms have "remove1 t xs = removeAll t xs" by (rule distinct_remove1_removeAll)
  also have "\<dots> = filter (\<lambda>x. t \<noteq> x) xs" by (simp add: removeAll_filter_not_eq)
  also have "\<dots> = filter (\<lambda>x. x \<noteq> t) xs" by (rule filter_cong) auto
  finally show ?thesis .
qed

text \<open>
  Claim C2. On a reliable host, for a generation-1 virtual machine whose boot order
  contains a token \<open>t\<close> of boot class \<open>c\<close>, \<^verbatim>\<open>set_boot_device(identity, c)\<close>
  returns and persists \<open>[t]\<close> followed by the original order with the first \<open>t\<close>
  taken out, which is the order without \<open>t\<close> when the order has no token twice; the other
  tokens keep their relative order, and \<^verbatim>\<open>get_boot_device(identity)\<close> then returns
  \<open>c\<close>.
\<close>

theorem set_then_get_boot_device_gen1:
  assumes "reliable h" and "vms h identity = Some m" and "generation m = VM_GEN_1 cs"
    and "t \<in> set (vm_boot_order m)" and "classOf cs t = Some c"
  shows "\<exists>h1 m1. set_boot_device cs identity c h = (Inr (), h1) \<and>
      vms h1 identity = Some m1 \<and>
      vm_boot_order m1 = [t] @ remove1 t (vm_boot_order m) \<and>
      (distinct (vm_boot_order m) \<longrightarrow>
         vm_boot_order m1 = [t] @ filter (\<lambda>x. x \<noteq> t) (vm_boot_order m)) \<and>
      fst (get_boot_device cs identity h1) = Inr (Some c)"
proof -
  let ?h0 = "h\<lparr>trace := trace h @ [Get_vm_generation identity]\<rparr>"
  let ?new = "t # remove1 t (vm_boot_order m)"
  let ?m1 = "m\<lparr>vm_boot_order := ?new\<rparr>"
  have d: "set_boot_device cs identity c h = set_boot_device_gen1 cs identity c ?h0"
    using assms(1-3) by (rule set_boot_device_gen1_dispatch)
  have "reliable ?h0" "vms ?h0 identity = Some m" using assms(1,2) by simp_all
  note r = set_boot_device_gen1_ok [OF this classOf_map_of [OF assms(5)] assms(4)]
  obtain h1 where h1: "set_boot_device cs identity c h = (Inr (), h1)"
    and v1: "vms h1 identity = Some ?m1" and r1: "reliable h1"
    unfolding d r using assms(1) by simp
  have g1: "generation ?m1 = VM_GEN_1 cs" using assms(3) by simp
  let ?h10 = "h1\<lparr>trace := trace h1 @ [Get_vm_generation identity]\<rparr>"
  have "reliable ?h10" "vms ?h10 identity = Some ?m1" using r1 v1 by simp_all
  note g = get_boot_device_gen1_ok [OF this, of cs]
  have get: "fst (get_boot_device cs identity h1) = Inr (Some c)"
    unfolding get_boot_device_gen1_dispatch [OF r1 v1 g1] g
    by (simp add: classOf_next_key [OF assms(5)])
  have dist: "distinct (vm_boot_order m) \<longrightarrow>
      ?new = [t] @ filter (\<lambda>x. x \<noteq> t) (vm_boot_order m)"
    by (simp add: remove1_distinct_filter)
  have "vms h1 identity = Some ?m1 \<and> vm_boot_order ?m1 = [t] @ remove1 t (vm_boot_order m) \<and>
      (distinct (vm_boot_order m) \<longrightarrow>
         vm_boot_order ?m1 = [t] @ filter (\<lambda>x. x \<noteq> t) (vm_boot_order m))"
    using v1 dist by simp
  with h1 get show ?thesis by blast
qed

lemma sample_gen1_vm:
  "vms (host_of ''vm1'' (gen1_vm st order)) ''vm1'' = Some (gen1_vm st order)"
  "generation (gen1_vm st order) = VM_GEN_1 sample_constants"
  "vm_boot_order (gen1_vm st order) = order"
  "EnabledState (gen1_vm st order) = st"
  by (simp_all add: host_of_def gen1_vm_def sample_constants_def)

theorem set_then_get_boot_device_gen1_witness:
  "classOf sample_constants 3 = Some ''Pxe'' \<and>
   (\<exists>h1 m1. set_boot_device sample_constants ''vm1'' ''Pxe''
        (host_of ''vm1'' (gen1_vm 2 [1, 2, 3, 0])) = (Inr (), h1) \<and>
      vms h1 ''vm1'' = Some m1 \<and> vm_boot_order m1 = [3, 1, 2, 0] \<and>
      fst (get_boot_device sample_constants ''vm1'' h1) = Inr (Some ''Pxe''))"
proof -
  let ?h = "host_of ''vm1'' (gen1_vm 2 [1, 2, 3, 0])"
  have r: "reliable ?h" by simp
  have t: "3 \<in> set (vm_boot_order (gen1_vm 2 [1, 2, 3, 0]))" by (simp add: sample_gen1_vm)
  have c: "classOf sample_constants 3 = Some ''Pxe''"
    by (simp add: classOf_def BOOT_ORDER_MAP_def sample_constants_def)
  from set_then_get_boot_device_gen1 [OF r sample_gen1_vm(1) sample_gen1_vm(2) t c]
  obtain h1 m1 where a: "set_boot_device sample_constants ''vm1'' ''Pxe'' ?h = (Inr (), h1)"
    and b: "vms h1 ''vm1'' = Some m1"
    and o: "vm_boot_order m1 = [3] @ remove1 3 (vm_boot_order (gen1_vm 2 [1, 2, 3, 0]))"
    and g: "fst (get_boot_device sample_constants ''vm1'' h1) = Inr (Some ''Pxe'')"
    by blast
  have "vm_boot_order m1 = [3, 1, 2, 0]" unfolding o sample_gen1_vm by simp
  with a b g c show ?thesis by blast
qed

subsection \<open>Failures of the generation-1 path\<close>

lemma set_boot_device_gen1_unmapped:
  assumes "reliable h" and "vms h i = Some m" and "map_of (BOOT_ORDER_MAP cs) src = None"
  shows "set_boot_device_gen1 cs i src h =
     (Inl ValueError, h\<lparr>trace := trace h @ [Lookup_vm_check i]\<rparr>)"
  using lookup_vm_check_ok [OF assms(1,2)] assms(3)
  by (simp add: set_boot_device_gen1_def and_then_def raise_def)

lemma get_boot_device_gen2_empty:
  assumes "reliable h" and "vms h i = Some m" and "vm_boot_source_order m = []"
  shows "get_boot_device_gen2 cs i h = (Inr None, h\<lparr>trace := trace h @ [Lookup_vm_check i]\<rparr>)"
  using lookup_vm_check_ok [OF assms(1,2)] assms(3)
  by (simp add: get_boot_device_gen2_def and_then_def ret_def)

lemma next_key_empty: "next_key (BOOT_ORDER_MAP cs) [] = Inl IndexError"
  by (simp add: BOOT_ORDER_MAP_def)

text \<open>
  Claim C10. On a reliable host, \<^verbatim>\<open>get_boot_device\<close> raises \<open>IndexError\<close> for a
  generation-1 virtual machine whose boot order is empty, and returns \<^verbatim>\<open>None\<close> for a
  virtual machine of another generation whose boot-source order is empty.
\<close>

theorem get_boot_device_empty_order:
  assumes "reliable h" and "vms h identity = Some m"
  shows "(generation m = VM_GEN_1 cs \<and> vm_boot_order m = [] \<longrightarrow>
            fst (get_boot_device cs identity h) = Inl IndexError) \<and>
         (generation m \<noteq> VM_GEN_1 cs \<and> vm_boot_source_order m = [] \<longrightarrow>
            fst (get_boot_device cs identity h) = Inr None)"
proof (intro conjI impI)
  let ?h0 = "h\<lparr>trace := trace h @ [Get_vm_generation identity]\<rparr>"
  have h0: "reliable ?h0" "vms ?h0 identity = Some m" using assms by simp_all
  {
    assume a: "generation m = VM_GEN_1 cs \<and> vm_boot_order m = []"
    then show "fst (get_boot_device cs identity h) = Inl IndexError"
      unfolding get_boot_device_gen1_dispatch [OF assms conjunct1 [OF a]]
        get_boot_device_gen1_ok [OF h0]
      by (simp add: next_key_empty)
  }
  {
    assume a: "generation m \<noteq> VM_GEN_1 cs \<and> vm_boot_source_order m = []"
    then show "fst (get_boot_device cs identity h) = Inr None"
      unfolding get_boot_device_gen2_dispatch [OF assms conjunct1 [OF a]]
        get_boot_device_gen2_empty [OF h0 conjunct2 [OF a]]
      by simp
  }
qed

theorem get_boot_device_empty_order_witness:
  "fst (get_boot_device sample_constants ''vm1'' (host_of ''vm1'' (gen1_vm 2 []))) = Inl IndexError \<and>
   fst (get_boot_device sample_constants ''vm2'' (host_of ''vm2'' (gen2_vm []))) = Inr None"
proof -
  have r1: "reliable (host_of ''vm1'' (gen1_vm 2 []))" by simp
  have r2: "reliable (host_of ''vm2'' (gen2_vm []))" by simp
  from get_boot_device_empty_order [OF r1 sample_gen1_vm(1), of sample_constants]
    get_boot_device_empty_order [OF r2 sample_gen2_vm(1), of sample_constants]
  show ?thesis by (simp add: sample_gen1_vm sample_gen2_vm)
qed

subsection \<open>Boot mode\<close>

text \<open>
  Claim C9. When the host reports the generation of the virtual machine,
  \<^verbatim>\<open>get_boot_mode\<close> returns \<open>UEFI\<close> exactly when the generation is \<open>VM_GEN_2\<close> and
  \<open>Legacy\<close> otherwise; \<^verbatim>\<open>set_boot_mode\<close> returns on every host, for every identity and
  boot mode, and leaves the host as it was, without an API call.
\<close>

theorem boot_mode_follows_generation:
  "(reliable h \<and> vms h identity = Some m \<longrightarrow>
      fst (get_boot_mode cs identity h) =
        Inr (Some (if generation m = VM_GEN_2 cs then ''UEFI'' else ''Legacy'')) \<and>
      (fst (get_boot_mode cs identity h) = Inr (Some ''UEFI'')) = (generation m = VM_GEN_2 cs)) \<and>
   set_boot_mode identity boot_mode h = (Inr (), h)"
proof (intro conjI impI)
  assume a: "reliable h \<and> vms h identity = Some m"
  note g = get_vm_generation_ok [OF conjunct1 [OF a] conjunct2 [OF a]]
  show r: "fst (get_boot_mode cs identity h) =
        Inr (Some (if generation m = VM_GEN_2 cs then ''UEFI'' else ''Legacy''))"
    using g by (simp add: get_boot_mode_def and_then_def ret_def)
  show "(fst (get_boot_mode cs identity h) = Inr (Some ''UEFI'')) = (generation m = VM_GEN_2 cs)"
    unfolding r by simp
next
  show "set_boot_mode identity boot_mode h = (Inr (), h)"
    by (simp add: set_boot_mode_def ret_def)
qed

theorem boot_mode_follows_generation_witness:
  "fst (get_boot_mode sample_constants ''vm2'' (host_of ''vm2'' (gen2_vm []))) = Inr (Some ''UEFI'') \<and>
   fst (get_boot_mode sample_constants ''vm1'' (host_of ''vm1'' (gen1_vm 2 []))) = Inr (Some ''Legacy'') \<and>
   set_boot_mode ''vm1'' ''UEFI'' (host_of ''vm1'' (gen1_vm 2 [])) = (Inr (), host_of ''vm1'' (gen1_vm 2 []))"
proof -
  have r1: "reliable (host_of ''vm1'' (gen1_vm 2 []))" by simp
  have r2: "reliable (host_of ''vm2'' (gen2_vm []))" by simp
  have g: "generation (gen2_vm []) = VM_GEN_2 sample_constants"
    "generation (gen1_vm 2 []) \<noteq> VM_GEN_2 sample_constants"
    by (simp_all add: gen2_vm_def gen1_vm_def sample_constants_def)
  from boot_mode_follows_generation [of "host_of ''vm2'' (gen2_vm [])" "''vm2''" "gen2_vm []"
      sample_constants "''UEFI''"]
    boot_mode_follows_generation [of "host_of ''vm1'' (gen1_vm 2 [])" "''vm1''" "gen1_vm 2 []"
      sample_constants "''UEFI''"]
  show ?thesis using r1 r2 g by (simp add: sample_gen1_vm(1) sample_gen2_vm(1))
qed

subsection \<open>Power state\<close>

text \<open>
  What the code does: when the host reports a state for the virtual machine,
  \<^verbatim>\<open>get_power_state\<close> returns \<open>On\<close> for the enabled state and \<open>Off\<close> for every other
  state.
\<close>

lemma get_power_state_on_or_off:
  assumes "reliable h" and "vms h identity = Some m"
  shows "fst (get_power_state cs identity h) =
      Inr (Some (if EnabledState m = HYPERV_VM_STATE_ENABLED cs then ''On'' else ''Off'')) \<and>
    fst (get_power_state cs identity h) \<in> {Inr (Some ''On''), Inr (Some ''Off'')} \<and>
    fst (get_power_state cs identity h) \<noteq> Inr None"
  using get_vm_state_ok [OF assms]
  by (simp add: get_power_state_def and_then_def ret_def)

text \<open>
  Claim C6 fails on the code. The docstring of \<^verbatim>\<open>get_power_state\<close> promises
  \<^verbatim>\<open>None\<close> when the power state cannot be determined. For a virtual machine whose
  reported state is neither the enabled nor the disabled one (9, quiesced, and 0, unknown)
  the code returns the definite state \<open>Off\<close>: its only test is the comparison with the
  enabled state.
\<close>

theorem get_power_state_indeterminate_reports_off:
  "EnabledState (gen1_vm 9 []) \<noteq> HYPERV_VM_STATE_ENABLED sample_constants \<and>
   EnabledState (gen1_vm 9 []) \<noteq> HYPERV_VM_STATE_DISABLED sample_constants \<and>
   fst (get_power_state sample_constants ''vm1'' (host_of ''vm1'' (gen1_vm 9 []))) =
     Inr (Some ''Off'') \<and>
   EnabledState (gen1_vm 0 []) \<noteq> HYPERV_VM_STATE_ENABLED sample_constants \<and>
   EnabledState (gen1_vm 0 []) \<noteq> HYPERV_VM_STATE_DISABLED sample_constants \<and>
   fst (get_power_state sample_constants ''vm1'' (host_of ''vm1'' (gen1_vm 0 []))) =
     Inr (Some ''Off'')"
  by (simp add: get_power_state_def and_then_def ret_def get_vm_state_def api_def
      host_of_def gen1_vm_def sample_constants_def)

subsection \<open>A first token without a boot class\<close>

text \<open>
  Claim C7 fails on the code. A generation-1 virtual machine whose boot order starts with
  the floppy token 0, which no boot source maps to: \<^verbatim>\<open>next\<close> has no default, so
  \<^verbatim>\<open>get_boot_device\<close> raises \<open>StopIteration\<close> where its docstring promises
  \<^verbatim>\<open>None\<close>.
\<close>

theorem get_boot_device_gen1_unmapped_first_raises:
  "classOf sample_constants 0 = None \<and>
   fst (get_boot_device sample_constants ''vm1'' (host_of ''vm1'' (gen1_vm 2 [0, 1, 2, 3])))
     = Inl StopIteration"
  by (simp add: classOf_def BOOT_ORDER_MAP_def get_boot_device_def get_boot_device_gen1_def
      and_then_def raise_def get_vm_generation_def lookup_vm_check_def api_def
      host_of_def gen1_vm_def sample_constants_def)

subsection \<open>Power transitions\<close>

lemma set_vm_state_trace:
  "trace (snd (set_vm_state cs i v h)) = trace h @ [Set_vm_state i v]"
  by (simp add: set_vm_state_def api_def Let_def split: option.splits)

lemma soft_shutdown_vm_trace:
  "trace (snd (soft_shutdown_vm cs i h)) = trace h @ [Soft_shutdown_vm i]"
  by (simp add: soft_shutdown_vm_def api_def Let_def split: option.splits)

lemma try_except_reraised:
  "try_except body
     (\<lambda>ex. if isinstance_FishyError ex then raise ex
           else raise (FishyError (power_state_message state identity ex))) h =
   (case body h of
      (Inl e, h1) \<Rightarrow> (Inl (reraised state identity e), h1)
    | (Inr a, h1) \<Rightarrow> (Inr a, h1))"
  by (simp add: try_except_def raise_def reraised_def split: prod.splits sum.splits)

lemma isinstance_reraised: "isinstance_FishyError (reraised state identity ex)"
  by (simp add: reraised_def)

lemma set_power_state_hard:
  assumes "map_of (VM_STATE_MAP cs) state = Some v" and "v \<noteq> 0"
  shows "set_power_state cs identity state h =
    (case set_vm_state cs identity v h of
       (Inl e, h1) \<Rightarrow> (Inl (reraised state identity e), h1)
     | (Inr a, h1) \<Rightarrow> (Inr a, h1))"
  using assms by (simp add: set_power_state_def try_except_reraised)

lemma VM_STATE_MAP_unmapped:
  "map_of (VM_STATE_MAP cs) ''GracefulShutdown'' = None"
  "map_of (VM_STATE_MAP cs) ''Nmi'' = None"
  by (simp_all add: VM_STATE_MAP_def)

lemma set_power_state_graceful:
  "set_power_state cs identity ''GracefulShutdown'' h =
    (case soft_shutdown_vm cs identity h of
       (Inl e, h1) \<Rightarrow> (Inl (reraised ''GracefulShutdown'' identity e), h1)
     | (Inr a, h1) \<Rightarrow> (Inr a, h1))"
  by (simp add: set_power_state_def try_except_reraised VM_STATE_MAP_unmapped)

lemma set_power_state_unsupported:
  assumes "map_of (VM_STATE_MAP cs) state = None \<or> map_of (VM_STATE_MAP cs) state = Some 0"
    and "state \<noteq> ''GracefulShutdown''"
  shows "set_power_state cs identity state h = (Inl NotSupportedError, h)"
  using assms
  by (auto simp: set_power_state_def try_except_reraised raise_def reraised_def)

lemma set_power_state_cases:
  "(\<exists>v. map_of (VM_STATE_MAP cs) state = Some v \<and> v \<noteq> 0 \<and>
      set_power_state cs identity state h =
        (case set_vm_state cs identity v h of
           (Inl e, h1) \<Rightarrow> (Inl (reraised state identity e), h1)
         | (Inr a, h1) \<Rightarrow> (Inr a, h1))) \<or>
   (state = ''GracefulShutdown'' \<and>
      set_power_state cs identity state h =
        (case soft_shutdown_vm cs identity h of
           (Inl e, h1) \<Rightarrow> (Inl (reraised state identity e), h1)
         | (Inr a, h1) \<Rightarrow> (Inr a, h1))) \<or>
   set_power_state cs identity state h = (Inl NotSupportedError, h)"
proof (cases "map_of (VM_STATE_MAP cs) state")
  case None
  then show ?thesis
    using set_power_state_graceful [of cs identity h]
      set_power_state_unsupported [of cs state identity h]
    by (cases "state = ''GracefulShutdown''") auto
next
  case (Some v)
  show ?thesis
  proof (cases "v = 0")
    case True
    with Some have "state \<noteq> ''GracefulShutdown''"
      using VM_STATE_MAP_unmapped(1) [of cs] by auto
    with Some True show ?thesis
      using set_power_state_unsupported [of cs state identity h] by simp
  next
    case False
    with Some show ?thesis
      using set_power_state_hard [of cs state v identity h] by simp
  qed
qed

lemma wrapped_fishy:
  fixes p :: "(exn + unit) \<times> host"
  assumes "fst (case p of (Inl e, h1) \<Rightarrow> (Inl (reraised s i e), h1)
                 | (Inr a, h1) \<Rightarrow> (Inr a, h1)) = Inl e'"
  shows "isinstance_FishyError e'"
proof (cases p)
  case (Pair r h1)
  with assms show ?thesis
    by (cases r) (auto simp: isinstance_reraised)
qed

lemma set_power_state_fishy:
  assumes "fst (set_power_state cs identity state h) = Inl e"
  shows "isinstance_FishyError e"
proof -
  from set_power_state_cases [of cs state identity h]
  consider v where "set_power_state cs identity state h =
        (case set_vm_state cs identity v h of
           (Inl e, h1) \<Rightarrow> (Inl (reraised state identity e), h1)
         | (Inr a, h1) \<Rightarrow> (Inr a, h1))"
    | "set_power_state cs identity state h =
        (case soft_shutdown_vm cs identity h of
           (Inl e, h1) \<Rightarrow> (Inl (reraised state identity e), h1)
         | (Inr a, h1) \<Rightarrow> (Inr a, h1))"
    | "set_power_state cs identity state h = (Inl NotSupportedError, h)"
    by blast
  then show ?thesis
  proof cases
    case 1
    with assms show ?thesis by (simp only: wrapped_fishy)
  next
    case 2
    with assms show ?thesis by (simp only: wrapped_fishy)
  next
    case 3
    with assms show ?thesis by simp
  qed
qed

lemma set_power_state_one_call:
  "trace (snd (set_power_state cs identity state h)) = trace h \<or>
   (\<exists>c. trace (snd (set_power_state cs identity state h)) = trace h @ [c])"
proof -
  have a: "snd (case p of (Inl e, h1) \<Rightarrow> (Inl (f e), h1) | (Inr a, h1) \<Rightarrow> (Inr a, h1)) = snd p"
    for p :: "(exn + unit) \<times> host" and f :: "exn \<Rightarrow> exn"
    by (simp split: prod.splits sum.splits)
  from set_power_state_cases [of cs state identity h] show ?thesis
    by (auto simp: a set_vm_state_trace soft_shutdown_vm_trace)
qed

lemma snd_wrapped:
  fixes p :: "(exn + unit) \<times> host"
  shows "snd (case p of (Inl e, h1) \<Rightarrow> (Inl (f e), h1) | (Inr a, h1) \<Rightarrow> (Inr a, h1)) = snd p"
  by (simp split: prod.splits sum.splits)

lemma fst_wrapped:
  fixes p :: "(exn + unit) \<times> host"
  assumes "fst p = Inl ex"
  shows "fst (case p of (Inl e, h1) \<Rightarrow> (Inl (f e), h1) | (Inr a, h1) \<Rightarrow> (Inr a, h1)) = Inl (f ex)"
  using assms by (cases p) simp

lemma sublist_power_state_message:
  "sublist state (power_state_message state identity ex)"
  "sublist identity (power_state_message state identity ex)"
proof -
  have "power_state_message state identity ex =
      (''Failed to set the power state '' @ dquote) @ state @ (dquote @
       '' for Hyper-V VM '' @ dquote @ identity @ dquote @ '': '' @ str_exn ex)"
    by (simp add: power_state_message_def)
  then show "sublist state (power_state_message state identity ex)"
    by (simp only: sublist_appendI)
  have "power_state_message state identity ex =
      (''Failed to set the power state '' @ dquote @ state @ dquote @
       '' for Hyper-V VM '' @ dquote) @ identity @ (dquote @ '': '' @ str_exn ex)"
    by (simp add: power_state_message_def)
  then show "sublist identity (power_state_message state identity ex)"
    by (simp only: sublist_appendI)
qed

text \<open>
  Claim C4. \<open>GracefulShutdown\<close> and \<open>Nmi\<close> are no keys of the state-transition map. For
  \<open>GracefulShutdown\<close> the one API call that \<^verbatim>\<open>set_power_state\<close> makes is
  \<^verbatim>\<open>soft_shutdown_vm\<close>, and the host afterwards is the host that call leaves; for
  \<open>Nmi\<close> it raises \<open>NotSupportedError\<close> without any API call.
\<close>

theorem set_power_state_graceful_shutdown_and_nmi:
  "map_of (VM_STATE_MAP cs) ''GracefulShutdown'' = None \<and>
   map_of (VM_STATE_MAP cs) ''Nmi'' = None \<and>
   trace (snd (set_power_state cs identity ''GracefulShutdown'' h)) =
     trace h @ [Soft_shutdown_vm identity] \<and>
   snd (set_power_state cs identity ''GracefulShutdown'' h) =
     snd (soft_shutdown_vm cs identity h) \<and>
   set_power_state cs identity ''Nmi'' h = (Inl NotSupportedError, h)"
proof (intro conjI)
  show "snd (set_power_state cs identity ''GracefulShutdown'' h) =
      snd (soft_shutdown_vm cs identity h)"
    by (simp only: set_power_state_graceful snd_wrapped)
  then show "trace (snd (set_power_state cs identity ''GracefulShutdown'' h)) =
      trace h @ [Soft_shutdown_vm identity]"
    by (simp only: soft_shutdown_vm_trace)
  show "set_power_state cs identity ''Nmi'' h = (Inl NotSupportedError, h)"
    by (rule set_power_state_unsupported) (simp_all add: VM_STATE_MAP_unmapped)
qed (rule VM_STATE_MAP_unmapped)+

theorem set_power_state_graceful_shutdown_and_nmi_witness:
  "set_power_state sample_constants ''vm1'' ''GracefulShutdown'' (host_of ''vm1'' (gen1_vm 2 [])) =
     (Inr (), (host_of ''vm1'' (gen1_vm 3 []))\<lparr>trace := [Soft_shutdown_vm ''vm1'']\<rparr>) \<and>
   set_power_state sample_constants ''vm1'' ''Nmi'' (host_of ''vm1'' (gen1_vm 2 [])) =
     (Inl NotSupportedError, host_of ''vm1'' (gen1_vm 2 []))"
proof -
  let ?h = "host_of ''vm1'' (gen1_vm 2 [])"
  let ?r = "set_power_state sample_constants ''vm1'' ''GracefulShutdown'' ?h"
  note t = set_power_state_graceful_shutdown_and_nmi [of sample_constants "''vm1''" ?h]
  have s: "soft_shutdown_vm sample_constants ''vm1'' ?h =
      (Inr (), (host_of ''vm1'' (gen1_vm 3 []))\<lparr>trace := [Soft_shutdown_vm ''vm1'']\<rparr>)"
    by (simp add: soft_shutdown_vm_def api_def host_of_def gen1_vm_def sample_constants_def)
  have "snd ?r = (host_of ''vm1'' (gen1_vm 3 []))\<lparr>trace := [Soft_shutdown_vm ''vm1'']\<rparr>"
    using t s by simp
  moreover have "fst ?r = Inr ()"
    by (simp add: set_power_state_graceful s)
  ultimately have "?r = (Inr (), (host_of ''vm1'' (gen1_vm 3 []))\<lparr>trace := [Soft_shutdown_vm ''vm1'']\<rparr>)"
    by (simp add: prod_eq_iff)
  with t show ?thesis by simp
qed

text \<open>
  Claim C5. Whatever exception the API call of \<^verbatim>\<open>set_power_state\<close> raises (the hard
  transition for a mapped state, the soft shutdown for \<open>GracefulShutdown\<close>),
  \<^verbatim>\<open>set_power_state\<close> raises it as it is when it is a \<^verbatim>\<open>FishyError\<close>, and otherwise
  raises a \<^verbatim>\<open>FishyError\<close> whose message contains the requested state and the identity.
  Every exception that leaves \<^verbatim>\<open>set_power_state\<close> is a \<^verbatim>\<open>FishyError\<close>, and at most one
  API call is made: nothing is retried.
\<close>

theorem set_power_state_wraps_backend_failures:
  "(map_of (VM_STATE_MAP cs) state = Some v \<and> v \<noteq> 0 \<and>
      fst (set_vm_state cs identity v h) = Inl ex \<longrightarrow>
        fst (set_power_state cs identity state h) = Inl (reraised state identity ex)) \<and>
   (fst (soft_shutdown_vm cs identity h) = Inl ex \<longrightarrow>
        fst (set_power_state cs identity ''GracefulShutdown'' h) =
          Inl (reraised ''GracefulShutdown'' identity ex)) \<and>
   (isinstance_FishyError ex \<longrightarrow> reraised state identity ex = ex) \<and>
   (\<not> isinstance_FishyError ex \<longrightarrow>
        reraised state identity ex = FishyError (power_state_message state identity ex)) \<and>
   sublist state (power_state_message state identity ex) \<and>
   sublist identity (power_state_message state identity ex) \<and>
   (\<forall>e. fst (set_power_state cs identity state h) = Inl e \<longrightarrow> isinstance_FishyError e) \<and>
   (trace (snd (set_power_state cs identity state h)) = trace h \<or>
    (\<exists>c. trace (snd (set_power_state cs identity state h)) = trace h @ [c]))"
proof (intro conjI impI allI)
  assume a: "map_of (VM_STATE_MAP cs) state = Some v \<and> v \<noteq> 0 \<and>
      fst (set_vm_state cs identity v h) = Inl ex"
  then have m: "map_of (VM_STATE_MAP cs) state = Some v" and v: "v \<noteq> 0"
    and f: "fst (set_vm_state cs identity v h) = Inl ex" by simp_all
  show "fst (set_power_state cs identity state h) = Inl (reraised state identity ex)"
    unfolding set_power_state_hard [OF m v] using f by (rule fst_wrapped)
next
  assume f: "fst (soft_shutdown_vm cs identity h) = Inl ex"
  show "fst (set_power_state cs identity ''GracefulShutdown'' h) =
      Inl (reraised ''GracefulShutdown'' identity ex)"
    unfolding set_power_state_graceful using f by (rule fst_wrapped)
next
  assume "isinstance_FishyError ex"
  then show "reraised state identity ex = ex" by (simp add: reraised_def)
next
  assume "\<not> isinstance_FishyError ex"
  then show "reraised state identity ex = FishyError (power_state_message state identity ex)"
    by (simp add: reraised_def)
next
  fix e assume "fst (set_power_state cs identity state h) = Inl e"
  then show "isinstance_FishyError e" by (rule set_power_state_fishy)
next
  show "trace (snd (set_power_state cs identity state h)) = trace h \<or>
    (\<exists>c. trace (snd (set_power_state cs identity state h)) = trace h @ [c])"
    by (rule set_power_state_one_call)
qed (rule sublist_power_state_message)+

lemma failing_host_set_vm_state:
  "fst (set_vm_state cs ''vm1'' v (failing_host e)) = Inl e"
  by (simp add: set_vm_state_def api_def failing_host_def)

theorem set_power_state_wraps_backend_failures_witness:
  "fst (set_power_state sample_constants ''vm1'' ''On''
          (failing_host (BackendException ''WMI job failed''))) =
     Inl (FishyError (''Failed to set the power state '' @ dquote @ ''On'' @ dquote @
            '' for Hyper-V VM '' @ dquote @ ''vm1'' @ dquote @ '': WMI job failed'')) \<and>
   fst (set_power_state sample_constants ''vm1'' ''ForceOff'' (failing_host NotSupportedError)) =
     Inl NotSupportedError"
proof -
  have on: "map_of (VM_STATE_MAP sample_constants) ''On'' = Some 2"
    and off: "map_of (VM_STATE_MAP sample_constants) ''ForceOff'' = Some 3"
    by (simp_all add: VM_STATE_MAP_def sample_constants_def)
  from set_power_state_wraps_backend_failures
    [of sample_constants "''On''" 2 "''vm1''" "failing_host (BackendException ''WMI job failed'')"
        "BackendException ''WMI job failed''"]
  have 1: "fst (set_power_state sample_constants ''vm1'' ''On''
          (failing_host (BackendException ''WMI job failed''))) =
      Inl (reraised ''On'' ''vm1'' (BackendException ''WMI job failed''))"
    using on by (simp add: failing_host_set_vm_state)
  from set_power_state_wraps_backend_failures
    [of sample_constants "''ForceOff''" 3 "''vm1''" "failing_host NotSupportedError"
        NotSupportedError]
  have 2: "fst (set_power_state sample_constants ''vm1'' ''ForceOff''
          (failing_host NotSupportedError)) =
      Inl (reraised ''ForceOff'' ''vm1'' NotSupportedError)"
    using off by (simp add: failing_host_set_vm_state)
  show ?thesis
    unfolding 1 2 by (simp add: reraised_def power_state_message_def)
qed

subsection \<open>What the operations leave behind on any host\<close>

lemma api_frame:
  assumes "api c f h = (r, h')"
    and "\<And>h1 a h2. f h1 = Inr (a, h2) \<Longrightarrow> wmi_objs h2 = wmi_objs h1 \<and> failure h2 = failure h1"
  shows "wmi_objs h' = wmi_objs h \<and> failure h' = failure h"
  using assms
  by (auto simp: api_def Let_def split: option.splits sum.splits)

lemma api_read:
  assumes "api c f h = (r, h')" and "\<And>h1 a h2. f h1 = Inr (a, h2) \<Longrightarrow> h2 = h1"
  shows "h' = h\<lparr>trace := trace h @ [c]\<rparr>"
  using assms
  by (auto simp: api_def Let_def split: option.splits sum.splits)

lemma get_vm_generation_read:
  "get_vm_generation i h = (r, h') \<Longrightarrow> h' = h\<lparr>trace := trace h @ [Get_vm_generation i]\<rparr>"
  unfolding get_vm_generation_def
  by (erule api_read) (auto split: option.splits)

lemma lookup_vm_check_read:
  "lookup_vm_check i h = (r, h') \<Longrightarrow> h' = h\<lparr>trace := trace h @ [Lookup_vm_check i]\<rparr>"
  unfolding lookup_vm_check_def
  by (erule api_read) (auto split: option.splits)

lemma get_wmi_obj_read:
  "get_wmi_obj p h = (r, h') \<Longrightarrow> h' = h\<lparr>trace := trace h @ [Get_wmi_obj p]\<rparr>"
  unfolding get_wmi_obj_def
  by (erule api_read) (auto split: option.splits)

lemma set_boot_device_gen1_unmapped_any:
  assumes "map_of (BOOT_ORDER_MAP cs) src = None"
  shows "\<exists>e. fst (set_boot_device_gen1 cs i src h) = Inl e"
    and "vms (snd (set_boot_device_gen1 cs i src h)) = vms h"
proof -
  obtain r h1 where l: "lookup_vm_check i h = (r, h1)" by (cases "lookup_vm_check i h")
  from lookup_vm_check_read [OF l] have v: "vms h1 = vms h" by simp
  show "\<exists>e. fst (set_boot_device_gen1 cs i src h) = Inl e"
    using l assms by (cases r) (simp_all add: set_boot_device_gen1_def and_then_def raise_def)
  show "vms (snd (set_boot_device_gen1 cs i src h)) = vms h"
    using l assms v by (cases r) (simp_all add: set_boot_device_gen1_def and_then_def raise_def)
qed

lemma api_raises:
  "failure h c = Some e \<Longrightarrow> api c f h = (Inl e, h\<lparr>trace := trace h @ [c]\<rparr>)"
  by (simp add: api_def)

lemma device_ok_trace [simp]: "device_ok cs src (h\<lparr>trace := t\<rparr>) = device_ok cs src h"
  by (simp add: device_ok_def fun_eq_iff)

lemma get_wmi_obj_local:
  "failure h (Get_wmi_obj p) = None \<Longrightarrow> wmi_objs h p = Some b \<Longrightarrow>
   get_wmi_obj p h = (Inr b, h\<lparr>trace := trace h @ [Get_wmi_obj p]\<rparr>)"
  by (simp add: get_wmi_obj_def api_def)

lemma collect_frame:
  "\<exists>t. snd (collect cs src ds new h) = h\<lparr>trace := t\<rparr>"
proof (induction ds arbitrary: new h)
  case Nil
  have "h = h\<lparr>trace := trace h\<rparr>" by simp
  then show ?case by (metis collect.simps(1) snd_conv)
next
  case (Cons d ds)
  obtain r h1 where g: "get_wmi_obj d h = (r, h1)" by (cases "get_wmi_obj d h")
  note h1 = get_wmi_obj_read [OF g]
  show ?case
  proof (cases r)
    case (Inl e)
    with g h1 show ?thesis by auto
  next
    case (Inr b)
    show ?thesis
    proof (cases "wanted cs src b")
      case (Inl e)
      with g h1 Inr show ?thesis by auto
    next
      case w: (Inr w)
      from Cons.IH [of "if w then new @ [d] else new" h1]
      obtain t where "snd (collect cs src ds (if w then new @ [d] else new) h1) = h1\<lparr>trace := t\<rparr>"
        by blast
      then have "snd (collect cs src (d # ds) new h) = h\<lparr>trace := t\<rparr>"
        using g Inr w h1 by (cases w) simp_all
      then show ?thesis by blast
    qed
  qed
qed

lemma collect_local:
  "list_all (device_ok cs src h) ds \<Longrightarrow>
   collect cs src ds new h =
     (Inr (new @ filter (appended cs src (wmi_objs h)) ds),
      h\<lparr>trace := trace h @ map Get_wmi_obj ds\<rparr>)"
proof (induction ds arbitrary: new h)
  case Nil
  then show ?case by simp
next
  case (Cons d ds)
  from Cons.prems obtain b w where f: "failure h (Get_wmi_obj d) = None"
    and b: "wmi_objs h d = Some b" and w: "wanted cs src b = Inr w"
    by (auto simp: device_ok_def resolves_def split: option.splits sum.splits)
  let ?h1 = "h\<lparr>trace := trace h @ [Get_wmi_obj d]\<rparr>"
  have g: "get_wmi_obj d h = (Inr b, ?h1)"
    using f b by (rule get_wmi_obj_local)
  have l1: "list_all (device_ok cs src ?h1) ds" using Cons.prems by simp
  have sel: "appended cs src (wmi_objs h) d = w"
    using b w by (simp add: appended_def)
  show ?case
  proof (cases w)
    case True
    then show ?thesis
      using g w sel Cons.IH [OF l1, of "new @ [d]"] by simp
  next
    case False
    then show ?thesis
      using g w sel Cons.IH [OF l1, of new] by simp
  qed
qed

lemma get_wmi_obj_not_ok:
  assumes "\<not> device_ok cs src h d"
  shows "(\<exists>e. fst (get_wmi_obj d h) = Inl e) \<or>
         (\<exists>b e. fst (get_wmi_obj d h) = Inr b \<and> wanted cs src b = Inl e)"
proof (cases "failure h (Get_wmi_obj d)")
  case (Some e)
  then show ?thesis by (simp add: get_wmi_obj_def api_raises)
next
  case None
  show ?thesis
  proof (cases "wmi_objs h d")
    case n: None
    with None show ?thesis by (simp add: get_wmi_obj_def api_def)
  next
    case (Some b)
    with None assms obtain e where "wanted cs src b = Inl e"
      by (auto simp: device_ok_def resolves_def split: sum.splits)
    with None Some show ?thesis by (simp add: get_wmi_obj_local)
  qed
qed

lemma collect_fails:
  "\<not> list_all (device_ok cs src h) ds \<Longrightarrow> \<exists>e. fst (collect cs src ds new h) = Inl e"
proof (induction ds arbitrary: new h)
  case Nil
  then show ?case by simp
next
  case (Cons d ds)
  obtain r h1 where g: "get_wmi_obj d h = (r, h1)" by (cases "get_wmi_obj d h")
  note h1 = get_wmi_obj_read [OF g]
  show ?case
  proof (cases "device_ok cs src h d")
    case False
    from get_wmi_obj_not_ok [OF False] g show ?thesis by auto
  next
    case True
    then obtain b w where f: "failure h (Get_wmi_obj d) = None"
      and b: "wmi_objs h d = Some b" and w: "wanted cs src b = Inr w"
      by (auto simp: device_ok_def resolves_def split: option.splits sum.splits)
    have g': "get_wmi_obj d h = (Inr b, h1)"
      using get_wmi_obj_local [OF f b] g h1 by simp
    from True Cons.prems have "\<not> list_all (device_ok cs src h1) ds" using h1 by simp
    from Cons.IH [OF this, of "if w then new @ [d] else new"]
    show ?thesis using g' w by (cases w) simp_all
  qed
qed

lemma goes_through_frame:
  assumes "failure h' = failure h" and "wmi_objs h' = wmi_objs h"
  shows "goes_through cs i src h' m = goes_through cs i src h m"
proof -
  have "device_ok cs src h' = device_ok cs src h"
    by (rule ext) (simp add: device_ok_def assms)
  then show ?thesis using assms by (simp add: goes_through_def)
qed

lemma set_boot_device_gen2_local:
  assumes "vms h i = Some m"
    and "failure h (Lookup_vm_check i) = None"
    and "list_all (device_ok cs src h) (vm_boot_source_order m)"
    and "failure h (Modify_virtual_system
        \<lparr>ElementName = i, BootOrder = vm_boot_order m,
         BootSourceOrder = partitioned cs src (wmi_objs h) (vm_boot_source_order m)\<rparr>) = None"
  shows "set_boot_device_gen2 cs i src h =
     (Inr (),
      h\<lparr>trace := trace h @ [Lookup_vm_check i] @ map Get_wmi_obj (vm_boot_source_order m) @
           [Modify_virtual_system
              \<lparr>ElementName = i, BootOrder = vm_boot_order m,
               BootSourceOrder = partitioned cs src (wmi_objs h) (vm_boot_source_order m)\<rparr>],
        vms := (vms h)(i \<mapsto>
          m\<lparr>vm_boot_source_order := partitioned cs src (wmi_objs h) (vm_boot_source_order m)\<rparr>)\<rparr>)"
proof -
  let ?h1 = "h\<lparr>trace := trace h @ [Lookup_vm_check i]\<rparr>"
  let ?old = "vm_boot_source_order m"
  let ?h2 = "?h1\<lparr>trace := trace ?h1 @ map Get_wmi_obj ?old\<rparr>"
  let ?s = "\<lparr>ElementName = i, BootOrder = vm_boot_order m, BootSourceOrder = ?old\<rparr>"
  have l: "lookup_vm_check i h = (Inr ?s, ?h1)"
    using assms(1,2) by (simp add: lookup_vm_check_def api_def)
  have "list_all (device_ok cs src ?h1) ?old" using assms(3) by simp
  from collect_local [OF this, of "[]"]
  have c: "collect cs src ?old [] ?h1 = (Inr (filter (appended cs src (wmi_objs h)) ?old), ?h2)"
    by simp
  let ?s' = "?s\<lparr>BootSourceOrder := partitioned cs src (wmi_objs h) ?old\<rparr>"
  have m: "modify_virtual_system ?s' ?h2 =
     (Inr (), ?h2\<lparr>trace := trace ?h2 @ [Modify_virtual_system ?s'],
        vms := (vms ?h2)(i \<mapsto> m\<lparr>vm_boot_source_order := partitioned cs src (wmi_objs h) ?old\<rparr>)\<rparr>)"
    using assms(1,4) by (simp add: modify_virtual_system_def api_def)
  have eq: "filter (appended cs src (wmi_objs h)) ?old @
      filter (\<lambda>d. d \<notin> set (filter (appended cs src (wmi_objs h)) ?old)) ?old =
      partitioned cs src (wmi_objs h) ?old"
    by (simp only: partitioned_def filter_not_in_filter)
  show ?thesis
    using l c m
    by (simp add: set_boot_device_gen2_def and_then_def eq del: set_filter)
qed

lemma modify_virtual_system_raises:
  "failure h (Modify_virtual_system s) = Some e \<Longrightarrow>
   modify_virtual_system s h = (Inl e, h\<lparr>trace := trace h @ [Modify_virtual_system s]\<rparr>)"
  by (simp add: modify_virtual_system_def api_raises)

lemma set_boot_device_gen2_stuck:
  assumes "vms h i = Some m"
    and "\<not> (failure h (Lookup_vm_check i) = None \<and>
      list_all (device_ok cs src h) (vm_boot_source_order m) \<and>
      failure h (Modify_virtual_system
        \<lparr>ElementName = i, BootOrder = vm_boot_order m,
         BootSourceOrder = partitioned cs src (wmi_objs h) (vm_boot_source_order m)\<rparr>) = None)"
  shows "\<exists>t. snd (set_boot_device_gen2 cs i src h) = h\<lparr>trace := t\<rparr>"
proof (cases "failure h (Lookup_vm_check i)")
  case (Some e)
  then have "lookup_vm_check i h = (Inl e, h\<lparr>trace := trace h @ [Lookup_vm_check i]\<rparr>)"
    by (simp add: lookup_vm_check_def api_raises)
  then have "snd (set_boot_device_gen2 cs i src h) = h\<lparr>trace := trace h @ [Lookup_vm_check i]\<rparr>"
    by (simp add: set_boot_device_gen2_def and_then_def)
  then show ?thesis by blast
next
  case None
  let ?h1 = "h\<lparr>trace := trace h @ [Lookup_vm_check i]\<rparr>"
  let ?old = "vm_boot_source_order m"
  let ?s = "\<lparr>ElementName = i, BootOrder = vm_boot_order m, BootSourceOrder = ?old\<rparr>"
  have l: "lookup_vm_check i h = (Inr ?s, ?h1)"
    using assms(1) None by (simp add: lookup_vm_check_def api_def)
  show ?thesis
  proof (cases "list_all (device_ok cs src h) ?old")
    case False
    then have "\<not> list_all (device_ok cs src ?h1) ?old" by simp
    from collect_fails [OF this, of "[]"] obtain e
      where e: "fst (collect cs src ?old [] ?h1) = Inl e" by blast
    from collect_frame [of cs src ?old "[]" ?h1] obtain t
      where t: "snd (collect cs src ?old [] ?h1) = ?h1\<lparr>trace := t\<rparr>" by blast
    from e t have "collect cs src ?old [] ?h1 = (Inl e, ?h1\<lparr>trace := t\<rparr>)"
      by (simp add: prod_eq_iff)
    with l have "snd (set_boot_device_gen2 cs i src h) = h\<lparr>trace := t\<rparr>"
      by (simp add: set_boot_device_gen2_def and_then_def)
    then show ?thesis by blast
  next
    case True
    let ?h2 = "?h1\<lparr>trace := trace ?h1 @ map Get_wmi_obj ?old\<rparr>"
    have "list_all (device_ok cs src ?h1) ?old" using True by simp
    from collect_local [OF this, of "[]"]
    have c: "collect cs src ?old [] ?h1 = (Inr (filter (appended cs src (wmi_objs h)) ?old), ?h2)"
      by simp
    let ?s' = "?s\<lparr>BootSourceOrder := partitioned cs src (wmi_objs h) ?old\<rparr>"
    from assms(2) None True obtain e where "failure h (Modify_virtual_system ?s') = Some e"
      by auto
    then have "failure ?h2 (Modify_virtual_system ?s') = Some e" by simp
    note m = modify_virtual_system_raises [OF this]
    have eq: "filter (appended cs src (wmi_objs h)) ?old @
        filter (\<lambda>d. d \<notin> set (filter (appended cs src (wmi_objs h)) ?old)) ?old =
        partitioned cs src (wmi_objs h) ?old"
      by (simp only: partitioned_def filter_not_in_filter)
    have "snd (set_boot_device_gen2 cs i src h) =
        ?h2\<lparr>trace := trace ?h2 @ [Modify_virtual_system ?s']\<rparr>"
      using l c m by (simp add: set_boot_device_gen2_def and_then_def eq del: set_filter)
    then show ?thesis by simp blast
  qed
qed

text \<open>
  What \<^verbatim>\<open>set_boot_device\<close> persists for a virtual machine that is not of generation 1:
  the stable partition when the path goes through, nothing otherwise. It never touches the
  boot-source objects or the failure oracle.
\<close>

lemma set_boot_device_gen2_effect:
  assumes "vms h i = Some m" and "generation m \<noteq> VM_GEN_1 cs"
  shows "vms (snd (set_boot_device cs i src h)) =
      (if goes_through cs i src h m
       then (vms h)(i \<mapsto> m\<lparr>vm_boot_source_order :=
              partitioned cs src (wmi_objs h) (vm_boot_source_order m)\<rparr>)
       else vms h)"
    and "wmi_objs (snd (set_boot_device cs i src h)) = wmi_objs h"
    and "failure (snd (set_boot_device cs i src h)) = failure h"
proof -
  let ?h0 = "h\<lparr>trace := trace h @ [Get_vm_generation i]\<rparr>"
  let ?P = "partitioned cs src (wmi_objs h) (vm_boot_source_order m)"
  let ?r = "snd (set_boot_device cs i src h)"
  have "vms ?r = (if goes_through cs i src h m
       then (vms h)(i \<mapsto> m\<lparr>vm_boot_source_order := ?P\<rparr>) else vms h) \<and>
     wmi_objs ?r = wmi_objs h \<and> failure ?r = failure h"
  proof (cases "failure h (Get_vm_generation i)")
    case (Some e)
    then have "get_vm_generation i h = (Inl e, ?h0)"
      by (simp add: get_vm_generation_def api_raises)
    then have "?r = ?h0" by (simp add: set_boot_device_def and_then_def)
    then show ?thesis using Some by (simp add: goes_through_def)
  next
    case None
    then have "get_vm_generation i h = (Inr (generation m), ?h0)"
      using assms(1) by (simp add: get_vm_generation_def api_def)
    then have d: "set_boot_device cs i src h = set_boot_device_gen2 cs i src ?h0"
      using assms(2) by (simp add: set_boot_device_def and_then_def)
    have v0: "vms ?h0 i = Some m" using assms(1) by simp
    show ?thesis
    proof (cases "goes_through cs i src h m")
      case True
      then have "failure ?h0 (Lookup_vm_check i) = None"
        "list_all (device_ok cs src ?h0) (vm_boot_source_order m)"
        "failure ?h0 (Modify_virtual_system
          \<lparr>ElementName = i, BootOrder = vm_boot_order m,
           BootSourceOrder = partitioned cs src (wmi_objs ?h0) (vm_boot_source_order m)\<rparr>) = None"
        by (simp_all add: goes_through_def)
      note r = set_boot_device_gen2_local [OF v0 this]
      show ?thesis unfolding d r using True by simp
    next
      case False
      with None have "\<not> (failure ?h0 (Lookup_vm_check i) = None \<and>
        list_all (device_ok cs src ?h0) (vm_boot_source_order m) \<and>
        failure ?h0 (Modify_virtual_system
          \<lparr>ElementName = i, BootOrder = vm_boot_order m,
           BootSourceOrder = partitioned cs src (wmi_objs ?h0) (vm_boot_source_order m)\<rparr>) = None)"
        by (simp add: goes_through_def)
      from set_boot_device_gen2_stuck [OF v0 this] obtain t
        where "snd (set_boot_device_gen2 cs i src ?h0) = ?h0\<lparr>trace := t\<rparr>" by blast
      then show ?thesis unfolding d using False by simp
    qed
  qed
  then show "vms ?r = (if goes_through cs i src h m
       then (vms h)(i \<mapsto> m\<lparr>vm_boot_source_order := ?P\<rparr>) else vms h)"
    and "wmi_objs ?r = wmi_objs h" and "failure ?r = failure h"
    by simp_all
qed

lemma goes_through_partitioned:
  "goes_through cs i src h
     (m\<lparr>vm_boot_source_order := partitioned cs src (wmi_objs h) (vm_boot_source_order m)\<rparr>) =
   goes_through cs i src h m"
  by (simp add: goes_through_def list_all_iff set_partitioned partitioned_idem)

text \<open>
  Claim C3. For a virtual machine that is not of generation 1,
  \<^verbatim>\<open>set_boot_device(identity, C)\<close> is idempotent on every host: after a second
  application every virtual machine, and so the persisted boot-source order, is as the
  first application left it, whether the applications go through or fail. On a reliable
  host whose boot devices resolve both applications return.
\<close>

theorem set_boot_device_gen2_idempotent:
  assumes "vms h identity = Some m" and "generation m \<noteq> VM_GEN_1 cs"
  shows "vms (snd (set_boot_device cs identity C (snd (set_boot_device cs identity C h)))) =
      vms (snd (set_boot_device cs identity C h)) \<and>
    (reliable h \<and> list_all (resolves cs C (wmi_objs h)) (vm_boot_source_order m) \<longrightarrow>
      fst (set_boot_device cs identity C h) = Inr () \<and>
      fst (set_boot_device cs identity C (snd (set_boot_device cs identity C h))) = Inr ())"
proof
  let ?h1 = "snd (set_boot_device cs identity C h)"
  let ?P = "partitioned cs C (wmi_objs h) (vm_boot_source_order m)"
  let ?m1 = "m\<lparr>vm_boot_source_order := ?P\<rparr>"
  note e = set_boot_device_gen2_effect [OF assms, of C]
  show "vms (snd (set_boot_device cs identity C ?h1)) = vms ?h1"
  proof (cases "goes_through cs identity C h m")
    case True
    then have v1: "vms ?h1 = (vms h)(identity \<mapsto> ?m1)" using e(1) by simp
    then have m1: "vms ?h1 identity = Some ?m1" by simp
    have g1: "generation ?m1 \<noteq> VM_GEN_1 cs" using assms(2) by simp
    have idem: "?m1\<lparr>vm_boot_source_order :=
        partitioned cs C (wmi_objs ?h1) (vm_boot_source_order ?m1)\<rparr> = ?m1"
      using e(2) by (simp add: partitioned_idem)
    have "(vms ?h1)(identity \<mapsto> ?m1) = vms ?h1"
      using m1 by (rule map_upd_triv)
    then show ?thesis
      using set_boot_device_gen2_effect(1) [OF m1 g1, of C] idem by simp
  next
    case False
    then have v1: "vms ?h1 = vms h" using e(1) by simp
    then have m1: "vms ?h1 identity = Some m" using assms(1) by simp
    have "goes_through cs identity C ?h1 m = goes_through cs identity C h m"
      using e(3) e(2) by (rule goes_through_frame)
    with False show ?thesis
      using set_boot_device_gen2_effect(1) [OF m1 assms(2), of C] by simp
  qed
  show "reliable h \<and> list_all (resolves cs C (wmi_objs h)) (vm_boot_source_order m) \<longrightarrow>
      fst (set_boot_device cs identity C h) = Inr () \<and>
      fst (set_boot_device cs identity C ?h1) = Inr ()"
  proof
    assume a: "reliable h \<and> list_all (resolves cs C (wmi_objs h)) (vm_boot_source_order m)"
    from set_boot_device_gen2_twice [OF conjunct1 [OF a] assms conjunct2 [OF a]]
    obtain h1 h2 where "set_boot_device cs identity C h = (Inr (), h1)"
      "set_boot_device cs identity C h1 = (Inr (), h2)" by blast
    then show "fst (set_boot_device cs identity C h) = Inr () \<and>
      fst (set_boot_device cs identity C ?h1) = Inr ()" by simp
  qed
qed

lemma get_vm_generation_result:
  assumes "vms h i = Some m"
  shows "get_vm_generation i h = (Inr (generation m), h\<lparr>trace := trace h @ [Get_vm_generation i]\<rparr>)
    \<or> (\<exists>e. get_vm_generation i h = (Inl e, h\<lparr>trace := trace h @ [Get_vm_generation i]\<rparr>))"
  using assms by (cases "failure h (Get_vm_generation i)")
    (simp_all add: get_vm_generation_def api_def)

text \<open>
  Claim C8. For a generation-1 virtual machine, \<^verbatim>\<open>set_boot_device\<close> with a boot source
  that has no token in the boot-order map raises on every host and leaves every virtual
  machine, so the persisted boot order, as it was. On a reliable host the exception is
  \<open>ValueError\<close>, Python's exception for an argument of an inappropriate value, raised by
  \<^verbatim>\<open>boot_order.remove(None)\<close> after the generation and the settings were read:
  \<^verbatim>\<open>None\<close> is never inserted and \<^verbatim>\<open>set_boot_order\<close> is never called.
\<close>

theorem set_boot_device_gen1_unmapped_fails:
  assumes "vms h identity = Some m" and "generation m = VM_GEN_1 cs"
    and "map_of (BOOT_ORDER_MAP cs) boot_source = None"
  shows "(\<exists>e. fst (set_boot_device cs identity boot_source h) = Inl e) \<and>
    vms (snd (set_boot_device cs identity boot_source h)) = vms h \<and>
    (reliable h \<longrightarrow>
       set_boot_device cs identity boot_source h =
         (Inl ValueError,
          h\<lparr>trace := trace h @ [Get_vm_generation identity, Lookup_vm_check identity]\<rparr>))"
proof (intro conjI impI)
  let ?h0 = "h\<lparr>trace := trace h @ [Get_vm_generation identity]\<rparr>"
  from get_vm_generation_result [OF assms(1)]
  consider "set_boot_device cs identity boot_source h =
      set_boot_device_gen1 cs identity boot_source ?h0"
    | e where "set_boot_device cs identity boot_source h = (Inl e, ?h0)"
    using assms(2) by (auto simp: set_boot_device_def and_then_def)
  then have "(\<exists>e. fst (set_boot_device cs identity boot_source h) = Inl e) \<and>
      vms (snd (set_boot_device cs identity boot_source h)) = vms h"
  proof cases
    case 1
    then show ?thesis
      using set_boot_device_gen1_unmapped_any [OF assms(3), of identity ?h0] by simp
  next
    case 2
    then show ?thesis by simp
  qed
  then show "\<exists>e. fst (set_boot_device cs identity boot_source h) = Inl e"
    and "vms (snd (set_boot_device cs identity boot_source h)) = vms h" by simp_all
next
  assume r: "reliable h"
  let ?h0 = "h\<lparr>trace := trace h @ [Get_vm_generation identity]\<rparr>"
  have d: "set_boot_device cs identity boot_source h =
      set_boot_device_gen1 cs identity boot_source ?h0"
    using r assms(1,2) by (rule set_boot_device_gen1_dispatch)
  have "reliable ?h0" "vms ?h0 identity = Some m" using r assms(1) by simp_all
  note u = set_boot_device_gen1_unmapped [OF this assms(3)]
  show "set_boot_device cs identity boot_source h =
      (Inl ValueError,
       h\<lparr>trace := trace h @ [Get_vm_generation identity, Lookup_vm_check identity]\<rparr>)"
    unfolding d u by simp
qed

theorem set_boot_device_gen2_idempotent_witness:
  "vms (snd (set_boot_device sample_constants ''vm2'' ''Cd''
      (snd (set_boot_device sample_constants ''vm2'' ''Cd''
        (host_of ''vm2'' (gen2_vm [''net0'', ''disk0'', ''dvd0'']))))))
    = vms (snd (set_boot_device sample_constants ''vm2'' ''Cd''
        (host_of ''vm2'' (gen2_vm [''net0'', ''disk0'', ''dvd0''])))) \<and>
   fst (set_boot_device sample_constants ''vm2'' ''Cd''
      (host_of ''vm2'' (gen2_vm [''net0'', ''disk0'', ''dvd0'']))) = Inr () \<and>
   fst (set_boot_device sample_constants ''vm2'' ''Cd''
      (snd (set_boot_device sample_constants ''vm2'' ''Cd''
        (host_of ''vm2'' (gen2_vm [''net0'', ''disk0'', ''dvd0'']))))) = Inr ()"
proof -
  let ?ds = "[''net0'', ''disk0'', ''dvd0'']"
  let ?h = "host_of ''vm2'' (gen2_vm ?ds)"
  have r: "reliable ?h" by simp
  have l: "list_all (resolves sample_constants ''Cd'' (wmi_objs ?h)) (vm_boot_source_order (gen2_vm ?ds))"
    by (simp only: sample_gen2_vm sample_resolves)
  from set_boot_device_gen2_idempotent [OF sample_gen2_vm(1) sample_gen2_vm(3), where C = "''Cd''"] r l
  show ?thesis by simp
qed

theorem set_boot_device_gen1_unmapped_fails_witness:
  "map_of (BOOT_ORDER_MAP sample_constants) ''Usb'' = None \<and>
   set_boot_device sample_constants ''vm1'' ''Usb'' (host_of ''vm1'' (gen1_vm 2 [1, 2, 3, 0])) =
     (Inl ValueError,
      (host_of ''vm1'' (gen1_vm 2 [1, 2, 3, 0]))
        \<lparr>trace := [Get_vm_generation ''vm1'', Lookup_vm_check ''vm1'']\<rparr>)"
proof -
  let ?h = "host_of ''vm1'' (gen1_vm 2 [1, 2, 3, 0])"
  have r: "reliable ?h" by simp
  have u: "map_of (BOOT_ORDER_MAP sample_constants) ''Usb'' = None"
    by (simp add: BOOT_ORDER_MAP_def)
  have t: "trace ?h = []" by (simp add: host_of_def)
  from set_boot_device_gen1_unmapped_fails [OF sample_gen1_vm(1) sample_gen1_vm(2) u] r
  show ?thesis using u t by simp
qed

subsection \<open>The loop's test and the resolved boot class\<close>

text \<open>
  One direction holds: when \<^verbatim>\<open>_get_boot_device_gen2\<close> returns a boot class for the
  first device of the order, that device passes the loop's test for the class.
\<close>

lemma resolved_class_appended:
  assumes "reliable h" and "vms h i = Some m" and "vm_boot_source_order m = d # ds"
    and "fst (get_boot_device_gen2 cs i h) = Inr (Some C)"
  shows "appended cs C (wmi_objs h) d"
proof -
  let ?h1 = "h\<lparr>trace := trace h @ [Lookup_vm_check i]\<rparr>"
  note l = lookup_vm_check_ok [OF assms(1,2)]
  show ?thesis
  proof (cases "wmi_objs h d")
    case None
    then have "fst (get_wmi_obj d ?h1) = Inl obj_not_found"
      using assms(1) by (simp add: get_wmi_obj_def api_def reliable_def)
    then have "fst (get_boot_device_gen2 cs i h) = Inl obj_not_found"
      using l assms(3)
      by (cases "get_wmi_obj d ?h1") (simp add: get_boot_device_gen2_def and_then_def)
    with assms(4) show ?thesis by simp
  next
    case (Some b)
    have "reliable ?h1" "wmi_objs ?h1 d = Some b" using assms(1) Some by simp_all
    note g = get_wmi_obj_ok [OF this]
    from assms(4) l g assms(3) have "wanted cs C b = Inr True"
      by (auto simp: get_boot_device_gen2_def and_then_def ret_def raise_def wanted_def
          BOOT_SOURCE_TYPE_NETWORK_def BOOT_SOURCE_TYPE_DRIVE_def
          split: if_splits list.splits)
    with Some show ?thesis by (simp add: appended_def)
  qed
qed

subsection \<open>A boot order with a record that has no associated resource\<close>

lemmas odd_defs =
  odd_host_def odd_objs_def host_of_def gen2_vm_def sample_objs_def sample_constants_def
  get_vm_generation_def lookup_vm_check_def get_wmi_obj_def modify_virtual_system_def api_def
  and_then_def ret_def raise_def BOOT_SOURCE_TYPE_NETWORK_def BOOT_SOURCE_TYPE_DRIVE_def

text \<open>
  Claim C1 fails on the code. In the boot-source order \<open>[file0, disk0]\<close> the device
  \<open>disk0\<close> is a hard disk: at the head of an order \<^verbatim>\<open>get_boot_device\<close> resolves it to
  \<open>Hdd\<close>. \<open>file0\<close> is a file-typed boot entry without an associated resource, for which
  \<^verbatim>\<open>get_boot_device\<close> returns \<^verbatim>\<open>None\<close>. \<^verbatim>\<open>set_boot_device(identity, "Hdd")\<close> does
  not bring \<open>disk0\<close> to index 0: the loop indexes \<^verbatim>\<open>associators(...)[0]\<close> for every
  record it does not take for \<open>Pxe\<close>, without the test of \<open>BootSourceType\<close> that the get
  path makes first, so it raises \<open>IndexError\<close> at \<open>file0\<close> and persists nothing.
\<close>

theorem set_boot_device_gen2_unassociated_record_raises:
  "fst (get_boot_device sample_constants ''vm2'' (odd_host [''disk0'', ''file0''])) =
     Inr (Some ''Hdd'') \<and>
   fst (get_boot_device sample_constants ''vm2'' (odd_host [''file0'', ''disk0''])) = Inr None \<and>
   set_boot_device sample_constants ''vm2'' ''Hdd'' (odd_host [''file0'', ''disk0'']) =
     (Inl IndexError,
      (odd_host [''file0'', ''disk0''])
        \<lparr>trace := [Get_vm_generation ''vm2'', Lookup_vm_check ''vm2'', Get_wmi_obj ''file0'']\<rparr>) \<and>
   map_option vm_boot_source_order
     (vms (snd (set_boot_device sample_constants ''vm2'' ''Hdd'' (odd_host [''file0'', ''disk0''])))
        ''vm2'') = Some [''file0'', ''disk0'']"
  by (simp add: get_boot_device_def get_boot_device_gen2_def set_boot_device_def
      set_boot_device_gen2_def wanted_def odd_defs)

text \<open>
  The same missing test shows on a network-typed record whose associated resource is a disk
  drive: \<^verbatim>\<open>get_boot_device\<close> resolves it to \<open>Pxe\<close>, the loop appends it for \<open>Hdd\<close>, and
  after \<^verbatim>\<open>set_boot_device(identity, "Hdd")\<close> it is still at index 0, before the hard disk.
\<close>

lemma set_boot_device_gen2_network_record_with_disk:
  "fst (get_boot_device sample_constants ''vm2'' (odd_host [''netdisk'', ''disk0''])) =
     Inr (Some ''Pxe'') \<and>
   fst (set_boot_device sample_constants ''vm2'' ''Hdd'' (odd_host [''netdisk'', ''disk0''])) =
     Inr () \<and>
   map_option vm_boot_source_order
     (vms (snd (set_boot_device sample_constants ''vm2'' ''Hdd'' (odd_host [''netdisk'', ''disk0''])))
        ''vm2'') = Some [''netdisk'', ''disk0'']"
  by (simp add: get_boot_device_def get_boot_device_gen2_def set_boot_device_def
      set_boot_device_gen2_def wanted_def odd_defs)

end
